theory Spec2Isabelle
  imports Complex_Main "HOL-Library.AList"
begin

section \<open>JavaScript values and plain objects\<close>

text \<open>
  The evaluation engine is TypeScript.  Values whose static type is \<open>unknown\<close> or an untagged
  union are modelled by the datatype below; numbers given to the code are exact rationals
  (IEEE rounding is not modelled).  A plain object (\<open>Record<string, T>\<close>, made by \<open>{}\<close>) is
  an association list of its own properties in property order; \<open>Object.entries\<close>,
  \<open>Object.keys\<close> and \<open>Object.values\<close> read that list (the reordering of index-like keys is
  not modelled).
\<close>

datatype jsval =
    JUndefined
  | JNull
  | JBool bool
  | JNum rat
  | JStr string
  | JObj "(string \<times> jsval) list"

type_synonym 'v Record = "(string \<times> 'v) list"

text \<open>
  A plain object inherits from \<open>Object.prototype\<close>.  Its property names, as the language
  defines them, are listed here; all hold functions except \<open>__proto__\<close>, an accessor that
  reads and sets the prototype.  \<open>obj[k]\<close> and \<open>k in obj\<close> see these names on every plain
  object; \<open>Object.prototype\<close> is taken as the language defines it (nothing added by other
  code).
\<close>

definition Object_prototype_names :: "string list" where
  "Object_prototype_names =
     [''constructor'', ''__defineGetter__'', ''__defineSetter__'', ''hasOwnProperty'',
      ''__lookupGetter__'', ''__lookupSetter__'', ''isPrototypeOf'', ''propertyIsEnumerable'',
      ''toString'', ''valueOf'', ''__proto__'', ''toLocaleString'']"

definition inherited :: "string \<Rightarrow> bool" where
  "inherited k \<longleftrightarrow> k \<in> set Object_prototype_names"

text \<open>
  \<open>obj[k] = v\<close>: an own property is overwritten in place or appended, except that the name
  \<open>__proto__\<close> runs the inherited setter, which makes no own property.  (Given an object,
  the setter replaces the prototype of \<open>obj\<close>; what \<open>obj\<close> then inherits from it is not
  followed.)
\<close>

definition set_prop :: "string \<Rightarrow> 'v \<Rightarrow> 'v Record \<Rightarrow> 'v Record" where
  "set_prop k v obj = (if k = ''__proto__'' then obj else AList.update k v obj)"

text \<open>\<open>k in obj\<close>\<close>

definition has_prop :: "'v Record \<Rightarrow> string \<Rightarrow> bool" where
  "has_prop obj k \<longleftrightarrow> map_of obj k \<noteq> None \<or> inherited k"

text \<open>
  What a variable of static type \<open>number\<close> holds at run time: a number, or something that
  is no number (an inherited function or object, the text that \<open>+\<close> makes of one, \<open>NaN\<close>).
  \<open>+\<close> and \<open>/\<close> with such an operand give such a value again: a function or a text plus
  anything is a text, a text of that kind divided or dividing gives \<open>NaN\<close>, and \<open>NaN\<close> stays.
  The divisors of this code are counts of at least one; \<open>js_div\<close> is \<open>NotNumber\<close> at zero.
\<close>

datatype num = Num rat | NotNumber

fun js_add :: "num \<Rightarrow> num \<Rightarrow> num" where
  "js_add (Num a) (Num b) = Num (a + b)"
| "js_add _ _ = NotNumber"

fun js_div :: "num \<Rightarrow> num \<Rightarrow> num" where
  "js_div (Num a) (Num b) = (if b = 0 then NotNumber else Num (a / b))"
| "js_div _ _ = NotNumber"

text \<open>
  \<open>obj[k] ?? 0\<close> on a record of numbers: the own value, else the inherited member (which is
  not nullish), else 0.  \<open>obj[k]!\<close> where a number is needed: the own value, else
  something that is no number (an inherited member or \<open>undefined\<close>).
\<close>

definition get_or_zero :: "num Record \<Rightarrow> string \<Rightarrow> num" where
  "get_or_zero r k =
     (case map_of r k of Some v \<Rightarrow> v | None \<Rightarrow> if inherited k then NotNumber else Num 0)"

definition num_at :: "num Record \<Rightarrow> string \<Rightarrow> num" where
  "num_at r k = (case map_of r k of Some v \<Rightarrow> v | None \<Rightarrow> NotNumber)"

text \<open>
  A thrown value: an \<open>Error\<close> instance, another value with its \<open>String(e)\<close>, or a value whose
  conversion to a string throws (an object without prototype, a throwing \<open>toString\<close>), with
  the value that conversion throws.
\<close>

record js_error =
  err_name :: string
  err_message :: string
  err_stack :: "string option"

datatype thrown =
    ThrownError js_error
  | ThrownValue string
  | ThrownUnprintable thrown

text \<open>
  \<open>e instanceof Error ? e : new Error(String(e))\<close>.  The \<open>stack\<close> of an error that the engine
  or the code makes with \<open>new\<close> is the engine's: \<open>stack name message\<close> gives it (\<open>None\<close> on an
  engine without stack traces).  \<open>Inl\<close> is the throw of \<open>String(e)\<close>.
\<close>

type_synonym engine_stack = "string \<Rightarrow> string \<Rightarrow> string option"

definition new_Error :: "engine_stack \<Rightarrow> string \<Rightarrow> string \<Rightarrow> js_error" where
  "new_Error stack name message = \<lparr>err_name = name, err_message = message, err_stack = stack name message\<rparr>"

fun as_error :: "engine_stack \<Rightarrow> thrown \<Rightarrow> thrown + js_error" where
  "as_error stack (ThrownError e) = Inr e"
| "as_error stack (ThrownValue s) = Inr (new_Error stack ''Error'' s)"
| "as_error stack (ThrownUnprintable e') = Inl e'"

text \<open>A thrown value for which that expression does not throw.\<close>

fun printable :: "thrown \<Rightarrow> bool" where
  "printable (ThrownUnprintable _) = False"
| "printable _ = True"

text \<open>\<open>`${error.name}: ${error.message}`\<close> and \<open>error.stack ?? ''\<close>\<close>

definition error_message_of :: "js_error \<Rightarrow> string" where
  "error_message_of error = err_name error @ '': '' @ err_message error"

definition error_stack_of :: "js_error \<Rightarrow> string" where
  "error_stack_of error = (case err_stack error of None \<Rightarrow> [] | Some s \<Rightarrow> s)"

text \<open>Decimal rendering of a non-negative integer, as a template literal prints it.\<close>

definition digit_char :: "nat \<Rightarrow> char" where
  "digit_char d = ''0123456789'' ! d"

function show_nat :: "nat \<Rightarrow> string" where
  "show_nat n = (if n < 10 then [digit_char n] else show_nat (n div 10) @ [digit_char (n mod 10)])"
  by pat_completeness auto
termination
  by (relation "measure id") auto

declare show_nat.simps [simp del]

text \<open>Distinct numbers print differently; the renaming loop below ends because of it.\<close>

lemma digit_char_inj: "a < 10 \<Longrightarrow> b < 10 \<Longrightarrow> digit_char a = digit_char b \<Longrightarrow> a = b"
proof -
  assume a: "a < 10" and b: "b < 10" and e: "digit_char a = digit_char b"
  have d: "distinct ''0123456789''" by simp
  have "length ''0123456789'' = 10" by simp
  with a b e d show ?thesis
    unfolding digit_char_def by (metis nth_eq_iff_index_eq)
qed

lemma show_nat_nonempty: "show_nat n \<noteq> []"
  by (subst show_nat.simps) simp

lemma show_nat_inj: "show_nat m = show_nat n \<Longrightarrow> m = n"
proof (induction m arbitrary: n rule: show_nat.induct)
  case (1 m)
  show ?case
  proof (cases "m < 10")
    case True
    then have sm: "show_nat m = [digit_char m]" by (subst show_nat.simps) simp
    show ?thesis
    proof (cases "n < 10")
      case True
      then have "show_nat n = [digit_char n]" by (subst show_nat.simps) simp
      with sm "1.prems" have "digit_char m = digit_char n" by simp
      with \<open>m < 10\<close> True show ?thesis by (rule digit_char_inj)
    next
      case False
      then have "show_nat n = show_nat (n div 10) @ [digit_char (n mod 10)]"
        by (subst show_nat.simps) simp
      with sm "1.prems" have "show_nat (n div 10) = []" by simp
      with show_nat_nonempty show ?thesis by blast
    qed
  next
    case False
    then have sm: "show_nat m = show_nat (m div 10) @ [digit_char (m mod 10)]"
      by (subst show_nat.simps) simp
    show ?thesis
    proof (cases "n < 10")
      case True
      then have "show_nat n = [digit_char n]" by (subst show_nat.simps) simp
      with sm "1.prems" have "show_nat (m div 10) = []" by simp
      with show_nat_nonempty show ?thesis by blast
    next
      case nf: False
      then have sn: "show_nat n = show_nat (n div 10) @ [digit_char (n mod 10)]"
        by (subst show_nat.simps) simp
      from sm sn "1.prems" have e1: "show_nat (m div 10) = show_nat (n div 10)"
        and e2: "digit_char (m mod 10) = digit_char (n mod 10)" by simp_all
      from "1.IH"[OF False e1] have d: "m div 10 = n div 10" .
      have "m mod 10 = n mod 10" using e2 by (intro digit_char_inj) simp_all
      with d show ?thesis by (metis div_mult_mod_eq)
    qed
  qed
qed

lemma suffixed_inj: "inj (\<lambda>k. name @ ''_'' @ show_nat k)"
  by (rule injI) (simp add: show_nat_inj)

lemma finite_suffixes: "finite {k. suffix \<le> k \<and> name @ ''_'' @ show_nat k \<in> set seenNames}"
proof -
  have "finite ((\<lambda>k. name @ ''_'' @ show_nat k) -` set seenNames)"
    by (rule finite_vimageI[OF _ suffixed_inj]) simp
  then show ?thesis
    by (rule rev_finite_subset) auto
qed

section \<open>Task-run context (context.ts)\<close>

record TaskRun =
  tr_attributes :: "jsval Record"
  tr_metrics :: "num Record"

text \<open>
  \<open>taskRunStorage.getStore()\<close> is the ambient store: \<open>None\<close> outside a task run,
  \<open>Some taskRun\<close> inside \<open>withTaskRun\<close>.  The helpers mutate the store's object; here they
  return the store after the call.
\<close>

definition setEvalAttribute :: "string \<Rightarrow> jsval \<Rightarrow> TaskRun option \<Rightarrow> TaskRun option" where
  "setEvalAttribute name val store =
     (case store of
        None \<Rightarrow> None
      | Some taskRun \<Rightarrow> Some (taskRun\<lparr>tr_attributes := set_prop name val (tr_attributes taskRun)\<rparr>))"

definition incrementEvalMetric :: "string \<Rightarrow> rat \<Rightarrow> TaskRun option \<Rightarrow> TaskRun option" where
  "incrementEvalMetric name amount store =
     (case store of
        None \<Rightarrow> None
      | Some taskRun \<Rightarrow>
          (let currentValue = get_or_zero (tr_metrics taskRun) name;
               newValue = js_add currentValue (Num amount)
           in if currentValue = Num 0 \<and> newValue = Num 0 then Some taskRun
              else Some (taskRun\<lparr>tr_metrics := set_prop name newValue (tr_metrics taskRun)\<rparr>)))"

section \<open>Result model (types.ts)\<close>

datatype spec_arguments =
    NoArguments
  | Positional jsval
  | Keywords "jsval Record"

record EvaluatorSpec =
  spec_name :: string
  spec_arguments :: spec_arguments

record 'v EvaluationResult =
  er_name :: string
  er_value :: 'v
  er_reason :: jsval
  er_source :: EvaluatorSpec

record EvaluatorFailure =
  ef_name :: string
  ef_errorMessage :: string
  ef_errorStacktrace :: string
  ef_source :: EvaluatorSpec

definition isEvaluationScalar :: "jsval \<Rightarrow> bool" where
  "isEvaluationScalar v =
     (case v of JBool _ \<Rightarrow> True | JNum _ \<Rightarrow> True | JStr _ \<Rightarrow> True | _ \<Rightarrow> False)"

text \<open>An object with a \<open>value\<close> property holding a boolean, a number or a string.\<close>

definition isEvaluationReason :: "jsval \<Rightarrow> bool" where
  "isEvaluationReason v =
     (case v of
        JObj props \<Rightarrow> (case map_of props ''value'' of None \<Rightarrow> False | Some x \<Rightarrow> isEvaluationScalar x)
      | _ \<Rightarrow> False)"

section \<open>Evaluator contract and context (evaluators/)\<close>

datatype span_capture =
    SpanTreeCaptured
  | SpanTreeRecordingError string

record ('i, 'o, 'm) EvaluatorContext =
  ctx_name :: "string option"
  ctx_inputs :: 'i
  ctx_metadata :: "'m option"
  ctx_expectedOutput :: "'o option"
  ctx_output :: 'o
  ctx_duration :: rat
  ctx_attributes :: "jsval Record"
  ctx_metrics :: "num Record"
  ctx_spanTreeOrError :: span_capture

text \<open>
  An evaluator instance, by what a call of each of its methods does: \<open>evaluate\<close> on a
  context, \<open>getDefaultEvaluationName()\<close> and \<open>asSpec()\<close>; each returns (\<open>Inr\<close>) or throws
  (\<open>Inl\<close>).  A subclass may override the last two, and \<open>asSpec\<close> calls the subclass's
  \<open>getFields\<close> and \<open>getDefaults\<close>.
\<close>

record ('i, 'o, 'm) Evaluator =
  evaluate :: "('i, 'o, 'm) EvaluatorContext \<Rightarrow> thrown + jsval"
  getDefaultEvaluationName :: "thrown + string"
  asSpec :: "thrown + EvaluatorSpec"

text \<open>
  The method \<open>getDefaultEvaluationName\<close> of the base class \<open>Evaluator\<close>: the field
  \<open>evaluationName\<close> when it holds a string, else what \<open>getSerializationName()\<close> gives.
\<close>

definition Evaluator_getDefaultEvaluationName :: "string option \<Rightarrow> thrown + string \<Rightarrow> thrown + string" where
  "Evaluator_getDefaultEvaluationName evalName getSerializationName =
     (case evalName of Some n \<Rightarrow> Inr n | None \<Rightarrow> getSerializationName)"

section \<open>Evaluator runner (run-evaluator.ts)\<close>

definition normalizeToMapping :: "jsval \<Rightarrow> string \<Rightarrow> jsval" where
  "normalizeToMapping result scalarName =
     (if isEvaluationScalar result \<or> isEvaluationReason result then JObj [(scalarName, result)]
      else result)"

text \<open>
  \<open>Object.entries\<close>: the own properties of an object, the indexed characters of a string,
  nothing for a boolean or a number, and the engine's \<open>TypeError\<close> for \<open>null\<close> and
  \<open>undefined\<close>.
\<close>

definition entries_TypeError :: "engine_stack \<Rightarrow> thrown" where
  "entries_TypeError stack =
     ThrownError (new_Error stack ''TypeError'' ''Cannot convert undefined or null to object'')"

fun object_entries :: "engine_stack \<Rightarrow> jsval \<Rightarrow> thrown + (string \<times> jsval) list" where
  "object_entries stack (JObj props) = Inr props"
| "object_entries stack (JStr s) = Inr (map (\<lambda>(i, c). (show_nat i, JStr [c])) (enumerate 0 s))"
| "object_entries stack (JBool _) = Inr []"
| "object_entries stack (JNum _) = Inr []"
| "object_entries stack JUndefined = Inl (entries_TypeError stack)"
| "object_entries stack JNull = Inl (entries_TypeError stack)"

text \<open>\<open>v[k]\<close> on a value, and \<open>x ?? null\<close>.\<close>

definition prop_get :: "jsval \<Rightarrow> string \<Rightarrow> jsval" where
  "prop_get v k =
     (case v of
        JObj props \<Rightarrow> (case map_of props k of None \<Rightarrow> JUndefined | Some x \<Rightarrow> x)
      | _ \<Rightarrow> JUndefined)"

definition or_null :: "jsval \<Rightarrow> jsval" where
  "or_null x = (if x = JUndefined \<or> x = JNull then JNull else x)"

text \<open>The body of the \<open>for\<close> loop over the entries: one detail per entry.\<close>

definition detail_of :: "EvaluatorSpec \<Rightarrow> string \<times> jsval \<Rightarrow> jsval EvaluationResult" where
  "detail_of source entry =
     (case entry of (name, result) \<Rightarrow>
        if isEvaluationReason result
        then \<lparr>er_name = name, er_value = prop_get result ''value'',
              er_reason = or_null (prop_get result ''reason''), er_source = source\<rparr>
        else \<lparr>er_name = name, er_value = result, er_reason = JNull, er_source = source\<rparr>)"

text \<open>
  The \<open>try\<close> block.  \<open>evaluate\<close>, \<open>getDefaultEvaluationName()\<close> (an argument of
  \<open>normalizeToMapping\<close>, so always called), \<open>Object.entries\<close> and, once per entry,
  \<open>asSpec()\<close> can throw; \<open>Inl\<close> is the value that leaves the block.
\<close>

definition runEvaluator_try ::
    "engine_stack \<Rightarrow> ('i, 'o, 'm) Evaluator \<Rightarrow> ('i, 'o, 'm) EvaluatorContext
      \<Rightarrow> thrown + jsval EvaluationResult list" where
  "runEvaluator_try stack evaluator ctx =
     (case evaluate evaluator ctx of
        Inl e \<Rightarrow> Inl e
      | Inr rawResults \<Rightarrow>
          (case getDefaultEvaluationName evaluator of
             Inl e \<Rightarrow> Inl e
           | Inr scalarName \<Rightarrow>
               (case object_entries stack (normalizeToMapping rawResults scalarName) of
                  Inl e \<Rightarrow> Inl e
                | Inr results \<Rightarrow>
                    if results = [] then Inr []
                    else (case asSpec evaluator of
                            Inl e \<Rightarrow> Inl e
                          | Inr source \<Rightarrow> Inr (map (detail_of source) results)))))"

text \<open>
  The \<open>catch\<close> block builds the failure record: \<open>String(e)\<close>, then
  \<open>getDefaultEvaluationName()\<close>, then \<open>asSpec()\<close>; a throw of one of them leaves
  \<open>runEvaluator\<close>.
\<close>

definition runEvaluator_catch ::
    "engine_stack \<Rightarrow> ('i, 'o, 'm) Evaluator \<Rightarrow> thrown \<Rightarrow> thrown + EvaluatorFailure" where
  "runEvaluator_catch stack evaluator e =
     (case as_error stack e of
        Inl e' \<Rightarrow> Inl e'
      | Inr error \<Rightarrow>
          (case getDefaultEvaluationName evaluator of
             Inl e' \<Rightarrow> Inl e'
           | Inr name \<Rightarrow>
               (case asSpec evaluator of
                  Inl e' \<Rightarrow> Inl e'
                | Inr source \<Rightarrow>
                    Inr \<lparr>ef_name = name,
                         ef_errorMessage = error_message_of error,
                         ef_errorStacktrace = error_stack_of error,
                         ef_source = source\<rparr>)))"

text \<open>
  \<open>runEvaluator\<close>: \<open>Inl e\<close> when the exception \<open>e\<close> escapes; otherwise it returns the array of
  results (\<open>Inr (Inr details)\<close>) or the failure record (\<open>Inr (Inl failure)\<close>).
\<close>

definition runEvaluator ::
    "engine_stack \<Rightarrow> ('i, 'o, 'm) Evaluator \<Rightarrow> ('i, 'o, 'm) EvaluatorContext
      \<Rightarrow> thrown + (EvaluatorFailure + jsval EvaluationResult list)" where
  "runEvaluator stack evaluator ctx =
     (case runEvaluator_try stack evaluator ctx of
        Inr details \<Rightarrow> Inr (Inr details)
      | Inl e \<Rightarrow>
          (case runEvaluator_catch stack evaluator e of
             Inl e' \<Rightarrow> Inl e'
           | Inr failure \<Rightarrow> Inr (Inl failure)))"

section \<open>Report model (reporting/report.ts)\<close>

record ('i, 'o, 'm) ReportCase =
  rc_name :: string
  rc_inputs :: 'i
  rc_metadata :: "'m option"
  rc_expectedOutput :: "'o option"
  rc_output :: 'o
  rc_metrics :: "num Record"
  rc_attributes :: "jsval Record"
  rc_scores :: "rat EvaluationResult Record"
  rc_labels :: "string EvaluationResult Record"
  rc_assertions :: "bool EvaluationResult Record"
  rc_taskDuration :: rat
  rc_totalDuration :: rat
  rc_sourceCaseName :: "string option"
  rc_traceId :: "string option"
  rc_spanId :: "string option"
  rc_evaluatorFailures :: "EvaluatorFailure list"

record ('i, 'o, 'm) ReportCaseFailure =
  rf_name :: string
  rf_inputs :: 'i
  rf_metadata :: "'m option"
  rf_expectedOutput :: "'o option"
  rf_errorMessage :: string
  rf_errorStacktrace :: string
  rf_sourceCaseName :: "string option"
  rf_traceId :: "string option"
  rf_spanId :: "string option"

record ReportCaseAggregate =
  agg_name :: string
  agg_scores :: "num Record"
  agg_labels :: "num Record Record"
  agg_metrics :: "num Record"
  agg_assertions :: "rat option"
  agg_taskDuration :: rat
  agg_totalDuration :: rat


text \<open>
  The report's data fields; its methods \<open>caseGroups()\<close> and \<open>averages()\<close> are the functions
  \<open>computeCaseGroups\<close> and \<open>computeAverages\<close> below, applied to the report.
\<close>

record ('i, 'o, 'm, 'a) EvaluationReport =
  rep_name :: string
  rep_cases :: "('i, 'o, 'm) ReportCase list"
  rep_failures :: "('i, 'o, 'm) ReportCaseFailure list"
  rep_analyses :: "'a list"
  rep_reportEvaluatorFailures :: "EvaluatorFailure list"
  rep_experimentMetadata :: "jsval Record option"
  rep_traceId :: "string option"
  rep_spanId :: "string option"

text \<open>
  The factories spread their options and add the trace fields.  \<open>createReportCase\<close> and
  \<open>createReportCaseFailure\<close> are called with every option given, so they are the record
  constructions written out where the orchestrator calls them.
\<close>

definition createEvaluationReport ::
    "string \<Rightarrow> ('i, 'o, 'm) ReportCase list \<Rightarrow> ('i, 'o, 'm) ReportCaseFailure list option
      \<Rightarrow> jsval Record option \<Rightarrow> ('i, 'o, 'm, 'a) EvaluationReport" where
  "createEvaluationReport name cases failures experimentMetadata =
     \<lparr>rep_name = name,
      rep_cases = cases,
      rep_failures = (case failures of None \<Rightarrow> [] | Some fs \<Rightarrow> fs),
      rep_analyses = [],
      rep_reportEvaluatorFailures = [],
      rep_experimentMetadata = experimentMetadata,
      rep_traceId = None,
      rep_spanId = None\<rparr>"

section \<open>Dataset and cases (dataset.ts)\<close>

record ('i, 'o, 'm) Case =
  case_name :: "string option"
  case_inputs :: 'i
  case_metadata :: "'m option"
  case_expectedOutput :: "'o option"
  case_evaluators :: "('i, 'o, 'm) Evaluator list option"

datatype 'a report_evaluator_output =
    OneAnalysis 'a
  | ManyAnalyses "'a list"

record ('i, 'o, 'm, 'a) ReportEvaluatorContext =
  rctx_name :: string
  rctx_report :: "('i, 'o, 'm, 'a) EvaluationReport"
  rctx_experimentMetadata :: "jsval Record option"

text \<open>A report evaluator, by what a call of each of its methods does.\<close>

record ('i, 'o, 'm, 'a) ReportEvaluator =
  re_evaluate :: "('i, 'o, 'm, 'a) ReportEvaluatorContext \<Rightarrow> thrown + 'a report_evaluator_output"
  re_getSerializationName :: "thrown + string"
  re_asSpec :: "thrown + EvaluatorSpec"

record ('i, 'o, 'm, 'a) Dataset =
  ds_name :: "string option"
  ds_cases :: "('i, 'o, 'm) Case list"
  ds_evaluators :: "('i, 'o, 'm) Evaluator list"
  ds_reportEvaluators :: "('i, 'o, 'm, 'a) ReportEvaluator list"

record EvaluateOptions =
  opt_name :: "string option"
  opt_maxConcurrency :: "int option"
  opt_repeat :: "int option"
  opt_metadata :: "jsval Record option"

text \<open>
  The task is a function value: its \<open>name\<close> property and what a call does.  A call is
  modelled by the context-helper calls it makes, in order, and its outcome (a thrown value
  or the output).  The task need not answer the same way twice, so \<open>task_fn\<close> is asked for a
  given call: the inputs, the position of the unit among the units of the evaluation, and
  the number of the call within that unit (0 for the first).
\<close>

datatype task_call =
    SetEvalAttribute string jsval
  | IncrementEvalMetric string rat

type_synonym 'o task_run = "task_call list \<times> (thrown + 'o)"

record ('i, 'o) Task =
  task_name :: string
  task_fn :: "'i \<Rightarrow> nat \<Rightarrow> nat \<Rightarrow> 'o task_run"

text \<open>
  What the orchestrator takes from its environment: the check \<open>p-limit\<close> makes of its argument
  (\<open>Some e\<close> when \<open>pLimit(n)\<close> throws \<open>e\<close>; \<open>None\<close> stands for \<open>Infinity\<close> as the argument),
  whether OpenTelemetry can be imported and has a tracer provider, the two
  \<open>performance.now()\<close> differences of each unit, in seconds, and the stack trace the engine
  gives a new error.
\<close>

datatype otel_status = OtelNotInstalled | OtelNoProvider | OtelConfigured

record runtime =
  rt_pLimit :: "int option \<Rightarrow> thrown option"
  rt_otel :: otel_status
  rt_durations :: "nat \<Rightarrow> rat \<times> rat"
  rt_stack :: engine_stack

fun apply_call :: "task_call \<Rightarrow> TaskRun option \<Rightarrow> TaskRun option" where
  "apply_call (SetEvalAttribute name val) store = setEvalAttribute name val store"
| "apply_call (IncrementEvalMetric name amount) store = incrementEvalMetric name amount store"

text \<open>
  \<open>withTaskRun\<close>: a fresh store for this run; the helper calls of \<open>fn\<close> act on it; a throw of
  \<open>fn\<close> leaves \<open>withTaskRun\<close>, otherwise the result comes back with what the store collected.
\<close>

definition withTaskRun :: "'r task_run \<Rightarrow> thrown + ('r \<times> jsval Record \<times> num Record)" where
  "withTaskRun fn =
     (let taskRun = \<lparr>tr_attributes = [], tr_metrics = []\<rparr>;
          taskRun' = (case fold apply_call (fst fn) (Some taskRun) of
                        Some t \<Rightarrow> t | None \<Rightarrow> taskRun)
      in case snd fn of
           Inl e \<Rightarrow> Inl e
         | Inr result \<Rightarrow> Inr (result, tr_attributes taskRun', tr_metrics taskRun'))"

definition configure_message :: string where
  "configure_message = ''To make use of the span tree in an evaluator, you must configure an OpenTelemetry tracer provider before running an evaluation.''"

definition install_message :: string where
  "install_message = ''To make use of the span tree in an evaluator, you must install @opentelemetry/api and @opentelemetry/sdk-trace-base.''"

text \<open>
  \<open>withSpanCapture\<close> (otel/context-subtree.ts); \<open>fn n\<close> is call number \<open>n\<close> of \<open>fn\<close>.  When the
  import fails, the \<open>catch\<close> block makes the only call.  When it succeeds, the call stands
  inside the \<open>try\<close>, and if it throws, the \<open>catch\<close> block calls \<open>fn\<close> a second time: the helper
  calls of both runs reach the store, and the outcome is that of the second call.
\<close>

definition withSpanCapture :: "otel_status \<Rightarrow> (nat \<Rightarrow> 'o task_run) \<Rightarrow> ('o \<times> span_capture) task_run" where
  "withSpanCapture otel fn =
     (let in_catch = (\<lambda>n. case snd (fn n) of
                        Inl e \<Rightarrow> Inl e
                      | Inr result \<Rightarrow> Inr (result, SpanTreeRecordingError install_message))
      in case otel of
           OtelNotInstalled \<Rightarrow> (fst (fn 0), in_catch 0)
         | OtelNoProvider \<Rightarrow>
             (case snd (fn 0) of
                Inr result \<Rightarrow> (fst (fn 0), Inr (result, SpanTreeRecordingError configure_message))
              | Inl _ \<Rightarrow> (fst (fn 0) @ fst (fn 1), in_catch 1))
         | OtelConfigured \<Rightarrow>
             (case snd (fn 0) of
                Inr result \<Rightarrow> (fst (fn 0), Inr (result, SpanTreeCaptured))
              | Inl _ \<Rightarrow> (fst (fn 0) @ fst (fn 1), in_catch 1)))"

text \<open>
  The renaming loop of \<open>groupEvaluatorOutputsByType\<close>:
  \<open>while (seenNames.has(`${name}_${suffix}`)) suffix++\<close>.
\<close>

function find_suffix :: "string list \<Rightarrow> string \<Rightarrow> nat \<Rightarrow> nat" where
  "find_suffix seenNames name suffix =
     (if name @ ''_'' @ show_nat suffix \<in> set seenNames
      then find_suffix seenNames name (Suc suffix) else suffix)"
  by pat_completeness auto
termination
proof (relation "measure (\<lambda>(seenNames, name, suffix).
                   card {k. suffix \<le> k \<and> name @ ''_'' @ show_nat k \<in> set seenNames})")
  show "wf (measure (\<lambda>(seenNames, name, suffix).
                   card {k. suffix \<le> k \<and> name @ ''_'' @ show_nat k \<in> set seenNames}))"
    by simp
next
  fix seenNames :: "string list" and name :: string and suffix :: nat
  assume seen: "name @ ''_'' @ show_nat suffix \<in> set seenNames"
  have "{k. Suc suffix \<le> k \<and> name @ ''_'' @ show_nat k \<in> set seenNames}
          \<subset> {k. suffix \<le> k \<and> name @ ''_'' @ show_nat k \<in> set seenNames}"
  proof (rule psubsetI)
    show "{k. Suc suffix \<le> k \<and> name @ ''_'' @ show_nat k \<in> set seenNames}
          \<subseteq> {k. suffix \<le> k \<and> name @ ''_'' @ show_nat k \<in> set seenNames}"
      by auto
    have "suffix \<in> {k. suffix \<le> k \<and> name @ ''_'' @ show_nat k \<in> set seenNames}"
      using seen by simp
    moreover have "suffix \<notin> {k. Suc suffix \<le> k \<and> name @ ''_'' @ show_nat k \<in> set seenNames}"
      by simp
    ultimately show "{k. Suc suffix \<le> k \<and> name @ ''_'' @ show_nat k \<in> set seenNames}
          \<noteq> {k. suffix \<le> k \<and> name @ ''_'' @ show_nat k \<in> set seenNames}"
      by blast
  qed
  then have "card {k. Suc suffix \<le> k \<and> name @ ''_'' @ show_nat k \<in> set seenNames}
          < card {k. suffix \<le> k \<and> name @ ''_'' @ show_nat k \<in> set seenNames}"
    by (rule psubset_card_mono[OF finite_suffixes])
  then show "((seenNames, name, Suc suffix), (seenNames, name, suffix))
          \<in> measure (\<lambda>(seenNames, name, suffix).
                   card {k. suffix \<le> k \<and> name @ ''_'' @ show_nat k \<in> set seenNames})"
    by simp
qed

declare find_suffix.simps [simp del]

definition dedup_name :: "string list \<Rightarrow> string \<Rightarrow> string" where
  "dedup_name seenNames name =
     (if name \<in> set seenNames then name @ ''_'' @ show_nat (find_suffix seenNames name 2)
      else name)"

text \<open>\<open>s.add(x)\<close> on a \<open>Set\<close>, kept in insertion order.\<close>

definition Set_add :: "'a \<Rightarrow> 'a list \<Rightarrow> 'a list" where
  "Set_add x s = (if x \<in> set s then s else s @ [x])"

record grouped =
  g_assertions :: "bool EvaluationResult Record"
  g_scores :: "rat EvaluationResult Record"
  g_labels :: "string EvaluationResult Record"
  g_seenNames :: "string list"

text \<open>One pass of the loop body over a result \<open>er\<close>; a value of another type is dropped
  (its name stays in \<open>seenNames\<close>).\<close>

definition group_step :: "jsval EvaluationResult \<Rightarrow> grouped \<Rightarrow> grouped" where
  "group_step er st =
     (let name = dedup_name (g_seenNames st) (er_name er);
          st' = st\<lparr>g_seenNames := Set_add name (g_seenNames st)\<rparr>
      in case er_value er of
           JBool b \<Rightarrow>
             st'\<lparr>g_assertions := set_prop name
                    \<lparr>er_name = name, er_value = b, er_reason = er_reason er, er_source = er_source er\<rparr>
                    (g_assertions st')\<rparr>
         | JNum n \<Rightarrow>
             st'\<lparr>g_scores := set_prop name
                    \<lparr>er_name = name, er_value = n, er_reason = er_reason er, er_source = er_source er\<rparr>
                    (g_scores st')\<rparr>
         | JStr s \<Rightarrow>
             st'\<lparr>g_labels := set_prop name
                    \<lparr>er_name = name, er_value = s, er_reason = er_reason er, er_source = er_source er\<rparr>
                    (g_labels st')\<rparr>
         | _ \<Rightarrow> st')"

definition groupEvaluatorOutputsByType :: "jsval EvaluationResult list \<Rightarrow> grouped" where
  "groupEvaluatorOutputsByType results =
     fold group_step results
       \<lparr>g_assertions = [], g_scores = [], g_labels = [], g_seenNames = []\<rparr>"

text \<open>Number to text for the \<open>repeat\<close> option, which may be negative or zero.\<close>

definition show_int :: "int \<Rightarrow> string" where
  "show_int i = (if i < 0 then ''-'' @ show_nat (nat (- i)) else show_nat (nat i))"

text \<open>\<open>c.name ?? `Case ${i + 1}`\<close>\<close>

definition case_display_name :: "nat \<Rightarrow> ('i, 'o, 'm) Case \<Rightarrow> string" where
  "case_display_name i c =
     (case case_name c of Some n \<Rightarrow> n | None \<Rightarrow> ''Case '' @ show_nat (i + 1))"

definition buildTasksToRun ::
    "('i, 'o, 'm) Case list \<Rightarrow> int \<Rightarrow> (('i, 'o, 'm) Case \<times> string \<times> string option) list" where
  "buildTasksToRun cases repeat =
     (if repeat > 1 then
        concat (map (\<lambda>(i, c).
            let caseName = case_display_name i c
            in map (\<lambda>runIdx.
                  (c, caseName @ '' ['' @ show_nat (runIdx + 1) @ ''/'' @ show_int repeat @ '']'',
                   Some caseName))
                 [0 ..< nat repeat])
          (enumerate 0 cases))
      else map (\<lambda>(i, c). (c, case_display_name i c, None)) (enumerate 0 cases))"

text \<open>
  A unit ends as a \<open>ReportCase\<close> or as a \<open>ReportCaseFailure\<close>.  Only the first has an
  \<open>output\<close> property (the factory spreads the options it is given), which is what the
  orchestrator's \<open>'output' in item\<close> tests; the two constructors stand for it.
\<close>

datatype ('i, 'o, 'm) unit_result =
    CaseResult "('i, 'o, 'm) ReportCase"
  | FailureResult "('i, 'o, 'm) ReportCaseFailure"

text \<open>
  \<open>await Promise.all(promises)\<close>: the array of the results, or the throw of a rejection.
  The promises are run one after the other here, so the rejection is the first by position.
\<close>

fun Promise_all :: "('e + 'a) list \<Rightarrow> 'e + 'a list" where
  "Promise_all [] = Inr []"
| "Promise_all (Inl e # rest) = Inl e"
| "Promise_all (Inr x # rest) = (case Promise_all rest of Inl e \<Rightarrow> Inl e | Inr xs \<Rightarrow> Inr (x # xs))"

text \<open>The loop over the evaluator results: arrays are appended, failures collected.\<close>

definition collect_step ::
    "EvaluatorFailure + jsval EvaluationResult list
      \<Rightarrow> jsval EvaluationResult list \<times> EvaluatorFailure list
      \<Rightarrow> jsval EvaluationResult list \<times> EvaluatorFailure list" where
  "collect_step result acc =
     (case acc of (evaluatorOutputs, evaluatorFailures) \<Rightarrow>
        (case result of
           Inr rs \<Rightarrow> (evaluatorOutputs @ rs, evaluatorFailures)
         | Inl f \<Rightarrow> (evaluatorOutputs, evaluatorFailures @ [f])))"

text \<open>
  The \<open>catch\<close> block of \<open>runTaskAndEvaluators\<close>: the failure record of the unit, unless
  \<open>String(e)\<close> throws.
\<close>

definition unit_failure ::
    "engine_stack \<Rightarrow> ('i, 'o, 'm) Case \<Rightarrow> string \<Rightarrow> string option \<Rightarrow> thrown
      \<Rightarrow> thrown + ('i, 'o, 'm) unit_result" where
  "unit_failure stack c reportCaseName sourceCaseName e =
     (case as_error stack e of
        Inl e' \<Rightarrow> Inl e'
      | Inr error \<Rightarrow>
          Inr (FailureResult
                \<lparr>rf_name = reportCaseName,
                 rf_inputs = case_inputs c,
                 rf_metadata = case_metadata c,
                 rf_expectedOutput = case_expectedOutput c,
                 rf_errorMessage = error_message_of error,
                 rf_errorStacktrace = error_stack_of error,
                 rf_sourceCaseName = sourceCaseName,
                 rf_traceId = None,
                 rf_spanId = None\<rparr>))"

text \<open>
  \<open>runTaskAndEvaluators\<close> for the unit at position \<open>j\<close>.  Everything from the task call to
  the construction of the report case stands in one \<open>try\<close>: the task can throw there, and
  so can \<open>Promise.all\<close> over the evaluator runs, when an exception escapes \<open>runEvaluator\<close>.
  \<open>Inl\<close> is a throw of the \<open>catch\<close> block, which leaves \<open>runTaskAndEvaluators\<close>.
\<close>

definition runTaskAndEvaluators ::
    "runtime \<Rightarrow> nat \<Rightarrow> ('i, 'o, 'm) Evaluator list \<Rightarrow> ('i, 'o) Task
      \<Rightarrow> ('i, 'o, 'm) Case \<Rightarrow> string \<Rightarrow> string option \<Rightarrow> thrown + ('i, 'o, 'm) unit_result" where
  "runTaskAndEvaluators rt j datasetEvaluators task c reportCaseName sourceCaseName =
     (case withTaskRun (withSpanCapture (rt_otel rt) (task_fn task (case_inputs c) j)) of
        Inr ((output, spanTree), attributes, metrics) \<Rightarrow>
          (let duration = fst (rt_durations rt j);
               ctx = \<lparr>ctx_name = case_name c,
                      ctx_inputs = case_inputs c,
                      ctx_metadata = case_metadata c,
                      ctx_expectedOutput = case_expectedOutput c,
                      ctx_output = output,
                      ctx_duration = duration,
                      ctx_attributes = attributes,
                      ctx_metrics = metrics,
                      ctx_spanTreeOrError = spanTree\<rparr>;
               allEvaluators = (case case_evaluators c of None \<Rightarrow> [] | Some evs \<Rightarrow> evs)
                                 @ datasetEvaluators
           in case (if length allEvaluators > 0
                    then Promise_all (map (\<lambda>ev. runEvaluator (rt_stack rt) ev ctx) allEvaluators)
                    else Inr []) of
                Inl e \<Rightarrow> unit_failure (rt_stack rt) c reportCaseName sourceCaseName e
              | Inr results \<Rightarrow>
                  (let (evaluatorOutputs, evaluatorFailures) = fold collect_step results ([], []);
                       g = groupEvaluatorOutputsByType evaluatorOutputs;
                       totalDuration = snd (rt_durations rt j)
                   in Inr (CaseResult
                        \<lparr>rc_name = reportCaseName,
                         rc_inputs = case_inputs c,
                         rc_metadata = case_metadata c,
                         rc_expectedOutput = case_expectedOutput c,
                         rc_output = output,
                         rc_metrics = metrics,
                         rc_attributes = attributes,
                         rc_scores = g_scores g,
                         rc_labels = g_labels g,
                         rc_assertions = g_assertions g,
                         rc_taskDuration = duration,
                         rc_totalDuration = totalDuration,
                         rc_sourceCaseName = sourceCaseName,
                         rc_traceId = None,
                         rc_spanId = None,
                         rc_evaluatorFailures = evaluatorFailures\<rparr>)))
      | Inl e \<Rightarrow> unit_failure (rt_stack rt) c reportCaseName sourceCaseName e)"

text \<open>
  \<open>runReportEvaluators\<close>: each report evaluator sees the report as it stands; its analyses
  are appended, or its failure recorded.  The \<open>catch\<close> block calls \<open>String(e)\<close>,
  \<open>getSerializationName()\<close> and \<open>asSpec()\<close>; a throw of one of them ends the loop and leaves
  \<open>runReportEvaluators\<close> (\<open>Inl\<close>).
\<close>

definition report_evaluator_step ::
    "engine_stack \<Rightarrow> string \<Rightarrow> jsval Record option \<Rightarrow> ('i, 'o, 'm, 'a) ReportEvaluator
      \<Rightarrow> ('i, 'o, 'm, 'a) EvaluationReport \<Rightarrow> thrown + ('i, 'o, 'm, 'a) EvaluationReport" where
  "report_evaluator_step stack taskName experimentMetadata reportEval report =
     (case re_evaluate reportEval
             \<lparr>rctx_name = taskName, rctx_report = report,
              rctx_experimentMetadata = experimentMetadata\<rparr> of
        Inr (ManyAnalyses result) \<Rightarrow> Inr (report\<lparr>rep_analyses := rep_analyses report @ result\<rparr>)
      | Inr (OneAnalysis result) \<Rightarrow> Inr (report\<lparr>rep_analyses := rep_analyses report @ [result]\<rparr>)
      | Inl e \<Rightarrow>
          (case as_error stack e of
             Inl e' \<Rightarrow> Inl e'
           | Inr error \<Rightarrow>
               (case re_getSerializationName reportEval of
                  Inl e' \<Rightarrow> Inl e'
                | Inr name \<Rightarrow>
                    (case re_asSpec reportEval of
                       Inl e' \<Rightarrow> Inl e'
                     | Inr source \<Rightarrow>
                         Inr (report\<lparr>rep_reportEvaluatorFailures :=
                                rep_reportEvaluatorFailures report @
                                  [\<lparr>ef_name = name,
                                    ef_errorMessage = error_message_of error,
                                    ef_errorStacktrace = error_stack_of error,
                                    ef_source = source\<rparr>]\<rparr>)))))"

fun runReportEvaluators ::
    "engine_stack \<Rightarrow> string \<Rightarrow> jsval Record option \<Rightarrow> ('i, 'o, 'm, 'a) ReportEvaluator list
      \<Rightarrow> ('i, 'o, 'm, 'a) EvaluationReport \<Rightarrow> thrown + ('i, 'o, 'm, 'a) EvaluationReport" where
  "runReportEvaluators stack taskName experimentMetadata [] report = Inr report"
| "runReportEvaluators stack taskName experimentMetadata (reportEval # rest) report =
     (case report_evaluator_step stack taskName experimentMetadata reportEval report of
        Inl e \<Rightarrow> Inl e
      | Inr report' \<Rightarrow> runReportEvaluators stack taskName experimentMetadata rest report')"

text \<open>The classification loop of \<open>evaluate\<close>.\<close>

definition classify_step ::
    "('i, 'o, 'm) unit_result
      \<Rightarrow> ('i, 'o, 'm) ReportCase list \<times> ('i, 'o, 'm) ReportCaseFailure list
      \<Rightarrow> ('i, 'o, 'm) ReportCase list \<times> ('i, 'o, 'm) ReportCaseFailure list" where
  "classify_step item acc =
     (case acc of (cases, failures) \<Rightarrow>
        (case item of
           CaseResult rc \<Rightarrow> (cases @ [rc], failures)
         | FailureResult rf \<Rightarrow> (cases, failures @ [rf])))"

text \<open>
  The runs of all units, in submission order.  \<open>Promise.all\<close> puts each unit's result at the
  unit's position whatever the order of completion, and a unit shares no state with
  another, so the interleaving under the limiter is not modelled.  \<open>unit_results\<close> are the
  results of the runs that returned; they are all runs when \<open>evaluate\<close> gets past
  \<open>Promise.all\<close>.
\<close>

definition unit_runs ::
    "runtime \<Rightarrow> ('i, 'o, 'm, 'a) Dataset \<Rightarrow> ('i, 'o) Task \<Rightarrow> int
      \<Rightarrow> (thrown + ('i, 'o, 'm) unit_result) list" where
  "unit_runs rt ds task repeat =
     map (\<lambda>(j, (c, reportName, sourceName)).
            runTaskAndEvaluators rt j (ds_evaluators ds) task c reportName sourceName)
         (enumerate 0 (buildTasksToRun (ds_cases ds) repeat))"

definition unit_results ::
    "runtime \<Rightarrow> ('i, 'o, 'm, 'a) Dataset \<Rightarrow> ('i, 'o) Task \<Rightarrow> int \<Rightarrow> ('i, 'o, 'm) unit_result list" where
  "unit_results rt ds task repeat =
     concat (map (\<lambda>run. case run of Inr item \<Rightarrow> [item] | Inl _ \<Rightarrow> []) (unit_runs rt ds task repeat))"

text \<open>\<open>Dataset.evaluate\<close>: \<open>Inl\<close> is the error it throws, \<open>Inr\<close> the report it returns.\<close>

definition repeat_error :: "engine_stack \<Rightarrow> int \<Rightarrow> thrown" where
  "repeat_error stack repeat =
     ThrownError (new_Error stack ''Error'' (''repeat must be >= 1, got '' @ show_int repeat))"

text \<open>\<open>opts?.repeat ?? 1\<close>, and the argument the limiter is built with.\<close>

definition repeat_of :: "EvaluateOptions \<Rightarrow> int" where
  "repeat_of opts = (case opt_repeat opts of None \<Rightarrow> 1 | Some r \<Rightarrow> r)"

definition limit_argument :: "EvaluateOptions \<Rightarrow> int option" where
  "limit_argument opts =
     (let maxConcurrency = opt_maxConcurrency opts
      in if maxConcurrency \<noteq> None \<and> maxConcurrency \<noteq> Some 0 then maxConcurrency else None)"

definition evaluate_ds ::
    "runtime \<Rightarrow> ('i, 'o, 'm, 'a) Dataset \<Rightarrow> ('i, 'o) Task \<Rightarrow> EvaluateOptions
      \<Rightarrow> thrown + ('i, 'o, 'm, 'a) EvaluationReport" where
  "evaluate_ds rt ds task opts =
     (let repeat = repeat_of opts
      in if repeat < 1 then Inl (repeat_error (rt_stack rt) repeat)
         else
           let taskName = (case opt_name opts of
                             Some n \<Rightarrow> n
                           | None \<Rightarrow> if task_name task \<noteq> [] then task_name task else ''task'')
           in case rt_pLimit rt (limit_argument opts) of
                Some e \<Rightarrow> Inl e
              | None \<Rightarrow>
                  (case Promise_all (unit_runs rt ds task repeat) of
                     Inl e \<Rightarrow> Inl e
                   | Inr results \<Rightarrow>
                       (let (cases, failures) = fold classify_step results ([], []);
                            report = createEvaluationReport taskName cases (Some failures)
                                       (opt_metadata opts)
                        in if length (ds_reportEvaluators ds) > 0
                           then runReportEvaluators (rt_stack rt) taskName (opt_metadata opts)
                                  (ds_reportEvaluators ds) report
                           else Inr report)))"

text \<open>
  The argument check of the \<open>p-limit\<close> package, for the concrete runs below: it accepts
  \<open>Infinity\<close> and the positive integers.
\<close>

definition pLimit_check :: "engine_stack \<Rightarrow> int option \<Rightarrow> thrown option" where
  "pLimit_check stack concurrency =
     (case concurrency of
        None \<Rightarrow> None
      | Some n \<Rightarrow>
          if n > 0 then None
          else Some (ThrownError (new_Error stack ''TypeError''
                       ''Expected `concurrency` to be a number from 1 and up'')))"

text \<open>The results that are report cases, and those that are failures, in order.\<close>

definition cases_of :: "('i, 'o, 'm) unit_result list \<Rightarrow> ('i, 'o, 'm) ReportCase list" where
  "cases_of results =
     concat (map (\<lambda>item. case item of CaseResult rc \<Rightarrow> [rc] | FailureResult _ \<Rightarrow> []) results)"

definition failures_of :: "('i, 'o, 'm) unit_result list \<Rightarrow> ('i, 'o, 'm) ReportCaseFailure list" where
  "failures_of results =
     concat (map (\<lambda>item. case item of CaseResult _ \<Rightarrow> [] | FailureResult rf \<Rightarrow> [rf]) results)"

fun result_name :: "('i, 'o, 'm) unit_result \<Rightarrow> string" where
  "result_name (CaseResult rc) = rc_name rc"
| "result_name (FailureResult rf) = rf_name rf"

fun result_sourceCaseName :: "('i, 'o, 'm) unit_result \<Rightarrow> string option" where
  "result_sourceCaseName (CaseResult rc) = rc_sourceCaseName rc"
| "result_sourceCaseName (FailureResult rf) = rf_sourceCaseName rf"

text \<open>
  \<open>Object.keys\<close> of a record as a set, and the relation the grouping loop keeps between its
  three records and the names it has seen.
\<close>

definition record_keys :: "'v Record \<Rightarrow> string set" where
  "record_keys r = set (map fst r)"

definition keys_apart :: "grouped \<Rightarrow> bool" where
  "keys_apart g \<longleftrightarrow>
     record_keys (g_assertions g) \<subseteq> set (g_seenNames g)
     \<and> record_keys (g_scores g) \<subseteq> set (g_seenNames g)
     \<and> record_keys (g_labels g) \<subseteq> set (g_seenNames g)
     \<and> record_keys (g_assertions g) \<inter> record_keys (g_scores g) = {}
     \<and> record_keys (g_assertions g) \<inter> record_keys (g_labels g) = {}
     \<and> record_keys (g_scores g) \<inter> record_keys (g_labels g) = {}"

section \<open>Aggregation (reporting/report.ts)\<close>

definition empty_aggregate :: ReportCaseAggregate where
  "empty_aggregate =
     \<lparr>agg_name = ''Averages'', agg_scores = [], agg_labels = [], agg_metrics = [],
      agg_assertions = None, agg_taskDuration = 0, agg_totalDuration = 0\<rparr>"

text \<open>
  The counting loops of \<open>averageCases\<close> for scores and metrics: \<open>val\<close> reads the number of an
  entry (\<open>v.value\<close> for a score, \<open>v\<close> for a metric).
\<close>

definition tally_step :: "('v \<Rightarrow> num) \<Rightarrow> string \<times> 'v \<Rightarrow> num Record \<times> num Record \<Rightarrow> num Record \<times> num Record" where
  "tally_step val entry acc =
     (case entry of (k, v) \<Rightarrow> case acc of (counts, totals) \<Rightarrow>
        (set_prop k (js_add (get_or_zero counts k) (Num 1)) counts,
         set_prop k (js_add (get_or_zero totals k) (val v)) totals))"

definition tally :: "('v \<Rightarrow> num) \<Rightarrow> 'v Record list \<Rightarrow> num Record \<times> num Record" where
  "tally val records = fold (\<lambda>r acc. fold (tally_step val) r acc) records ([], [])"

definition average_by_key :: "num Record \<times> num Record \<Rightarrow> num Record" where
  "average_by_key cs =
     (case cs of (counts, totals) \<Rightarrow>
        fold (\<lambda>k avg. set_prop k (js_div (num_at totals k) (num_at counts k)) avg)
             (map fst totals) [])"

text \<open>
  The label loop: \<open>labelCounts\<close> per name, and per name the count of each label value.
  \<open>!labelSums[k]\<close> holds only when \<open>k\<close> is neither an own nor an inherited name.  When
  \<open>labelSums[k]\<close> is an inherited member, the assignment \<open>labelSums[k][v.value] = ...\<close> acts on
  that built-in object, which is no part of \<open>labelSums\<close>.  The model follows neither the
  change to the built-in nor the \<open>TypeError\<close> with which the engine refuses the assignment
  when the property is read-only there (as \<open>name\<close> and \<open>length\<close> of a function are): for
  such labels it gives the aggregate of the remaining computation.
\<close>

definition label_step ::
    "string \<times> string EvaluationResult \<Rightarrow> num Record \<times> num Record Record
      \<Rightarrow> num Record \<times> num Record Record" where
  "label_step entry acc =
     (case entry of (k, v) \<Rightarrow> case acc of (labelCounts, labelSums) \<Rightarrow>
        (let labelCounts' = set_prop k (js_add (get_or_zero labelCounts k) (Num 1)) labelCounts;
             labelSums1 = (if \<not> has_prop labelSums k then set_prop k [] labelSums else labelSums)
         in (labelCounts',
             case map_of labelSums1 k of
               Some inner \<Rightarrow>
                 AList.update k
                   (set_prop (er_value v) (js_add (get_or_zero inner (er_value v)) (Num 1)) inner)
                   labelSums1
             | None \<Rightarrow> labelSums1)))"

definition label_tally ::
    "('i, 'o, 'm) ReportCase list \<Rightarrow> num Record \<times> num Record Record" where
  "label_tally cases = fold (\<lambda>c acc. fold label_step (rc_labels c) acc) cases ([], [])"

definition label_distribution :: "num Record \<times> num Record Record \<Rightarrow> num Record Record" where
  "label_distribution cs =
     (case cs of (labelCounts, labelSums) \<Rightarrow>
        fold (\<lambda>(k, counts) avgLabels.
                set_prop k
                  (fold (\<lambda>(label, count) d. set_prop label (js_div count (num_at labelCounts k)) d)
                        counts [])
                  avgLabels)
             labelSums [])"

definition averageCases :: "('i, 'o, 'm) ReportCase list \<Rightarrow> ReportCaseAggregate" where
  "averageCases cases =
     (let n = length cases
      in if n = 0 then empty_aggregate
         else
           let avgScores = average_by_key (tally (\<lambda>v. Num (er_value v)) (map rc_scores cases));
               avgLabels = label_distribution (label_tally cases);
               avgMetrics = average_by_key (tally (\<lambda>v. v) (map rc_metrics cases));
               nAssertions = foldl (\<lambda>sum c. sum + length (rc_assertions c)) 0 cases;
               avgAssertions =
                 (if nAssertions > 0
                  then Some (of_nat (foldl (\<lambda>sum c. sum +
                                 length (filter (\<lambda>a. er_value a) (map snd (rc_assertions c)))) 0 cases)
                             / of_nat nAssertions)
                  else None)
           in \<lparr>agg_name = ''Averages'',
               agg_scores = avgScores,
               agg_labels = avgLabels,
               agg_metrics = avgMetrics,
               agg_assertions = avgAssertions,
               agg_taskDuration = foldl (\<lambda>sum c. sum + rc_taskDuration c) 0 cases / of_nat n,
               agg_totalDuration = foldl (\<lambda>sum c. sum + rc_totalDuration c) 0 cases / of_nat n\<rparr>)"

text \<open>\<open>new Set(xs)\<close>: the distinct elements in order of first occurrence.\<close>

definition new_Set :: "'a list \<Rightarrow> 'a list" where
  "new_Set xs = fold Set_add xs []"

definition avgNumericDicts :: "num Record list \<Rightarrow> num Record" where
  "avgNumericDicts dicts =
     (let allKeys = new_Set (concat (map (map fst) dicts))
      in fold (\<lambda>key result.
                 let vals = map (\<lambda>d. num_at d key) (filter (\<lambda>d. has_prop d key) dicts)
                 in if length vals > 0
                    then set_prop key (js_div (foldl js_add (Num 0) vals) (Num (of_nat (length vals))))
                           result
                    else result)
              allKeys [])"

text \<open>
  The inner loop over the aggregates for one label name: \<open>combined\<close> and \<open>count\<close>.  Every
  aggregate passes \<open>key in a.labels\<close> for an inherited name; where the name is not its own,
  \<open>a.labels[key]\<close> is the inherited member, which has no entries.
\<close>

definition combine_step :: "string \<Rightarrow> ReportCaseAggregate \<Rightarrow> num Record \<times> nat \<Rightarrow> num Record \<times> nat" where
  "combine_step key a acc =
     (case acc of (combined, count) \<Rightarrow>
        if has_prop (agg_labels a) key
        then (fold (\<lambda>(labelVal, freq) combined.
                      set_prop labelVal (js_add (get_or_zero combined labelVal) freq) combined)
                   (case map_of (agg_labels a) key of Some freqs \<Rightarrow> freqs | None \<Rightarrow> [])
                   combined,
              count + 1)
        else (combined, count))"

definition combine_labels :: "ReportCaseAggregate list \<Rightarrow> num Record Record" where
  "combine_labels aggregates =
     (let allLabelKeys = new_Set (concat (map (\<lambda>a. map fst (agg_labels a)) aggregates))
      in fold (\<lambda>key avgLabels.
                 case fold (combine_step key) aggregates ([], 0) of (combined, count) \<Rightarrow>
                   set_prop key
                     (fold (\<lambda>(k, v) d. set_prop k (js_div v (Num (of_nat count))) d) combined [])
                     avgLabels)
              allLabelKeys [])"

definition averageFromAggregates :: "ReportCaseAggregate list \<Rightarrow> ReportCaseAggregate" where
  "averageFromAggregates aggregates =
     (if length aggregates = 0 then empty_aggregate
      else
        let avgScores = avgNumericDicts (map agg_scores aggregates);
            avgMetrics = avgNumericDicts (map agg_metrics aggregates);
            avgLabels = combine_labels aggregates;
            assertionValues = List.map_filter agg_assertions aggregates;
            avgAssertions =
              (if length assertionValues > 0
               then Some (foldl (\<lambda>a b. a + b) 0 assertionValues / of_nat (length assertionValues))
               else None)
        in \<lparr>agg_name = ''Averages'',
            agg_scores = avgScores,
            agg_labels = avgLabels,
            agg_metrics = avgMetrics,
            agg_assertions = avgAssertions,
            agg_taskDuration = foldl (\<lambda>sum a. sum + agg_taskDuration a) 0 aggregates
                                 / of_nat (length aggregates),
            agg_totalDuration = foldl (\<lambda>sum a. sum + agg_totalDuration a) 0 aggregates
                                  / of_nat (length aggregates)\<rparr>)"









section \<open>Notions used in the statements\<close>

text \<open>
  Conditions under which no \<open>catch\<close> block of the orchestrator throws.  A task and an
  evaluator are \<open>printable\<close> when every value they throw has a string conversion; a report
  evaluator is safe when, if its \<open>evaluate\<close> throws, the value has a string conversion
  and \<open>getSerializationName()\<close> and \<open>asSpec()\<close> return.
\<close>

definition printable_task :: "('i, 'o) Task \<Rightarrow> bool" where
  "printable_task task \<longleftrightarrow>
     (\<forall>inputs j n e. snd (task_fn task inputs j n) = Inl e \<longrightarrow> printable e)"

definition printable_evaluator :: "('i, 'o, 'm) Evaluator \<Rightarrow> bool" where
  "printable_evaluator ev \<longleftrightarrow>
     (\<forall>ctx e. evaluate ev ctx = Inl e \<longrightarrow> printable e)
     \<and> (\<forall>e. getDefaultEvaluationName ev = Inl e \<longrightarrow> printable e)
     \<and> (\<forall>e. asSpec ev = Inl e \<longrightarrow> printable e)"

definition safe_report_evaluator :: "('i, 'o, 'm, 'a) ReportEvaluator \<Rightarrow> bool" where
  "safe_report_evaluator reportEval \<longleftrightarrow>
     (\<forall>ctx e. re_evaluate reportEval ctx = Inl e \<longrightarrow>
        printable e
        \<and> (\<exists>name. re_getSerializationName reportEval = Inr name)
        \<and> (\<exists>source. re_asSpec reportEval = Inr source))"

definition handlers_safe :: "('i, 'o, 'm, 'a) Dataset \<Rightarrow> ('i, 'o) Task \<Rightarrow> bool" where
  "handlers_safe ds task \<longleftrightarrow>
     printable_task task
     \<and> (\<forall>ev \<in> set (ds_evaluators ds). printable_evaluator ev)
     \<and> (\<forall>c \<in> set (ds_cases ds). \<forall>evs. case_evaluators c = Some evs \<longrightarrow>
           (\<forall>ev \<in> set evs. printable_evaluator ev))
     \<and> (\<forall>reportEval \<in> set (ds_reportEvaluators ds). safe_report_evaluator reportEval)"

text \<open>
  An evaluator out of which \<open>runEvaluator\<close> lets nothing escape: its name and spec methods
  return, and what \<open>evaluate\<close> throws has a string conversion.
\<close>

definition contained_evaluator :: "('i, 'o, 'm) Evaluator \<Rightarrow> bool" where
  "contained_evaluator ev \<longleftrightarrow>
     (\<forall>ctx e. evaluate ev ctx = Inl e \<longrightarrow> printable e)
     \<and> (\<exists>name. getDefaultEvaluationName ev = Inr name)
     \<and> (\<exists>source. asSpec ev = Inr source)"

text \<open>
  The names a left-to-right scan gives a list of result names: each name is replaced by
  \<open>dedup_name\<close> of it among the names given so far.  A result is filed in a grouping under
  a name when the record of its value's type holds it there, renamed.
\<close>

fun assigned_names :: "string list \<Rightarrow> string list \<Rightarrow> string list" where
  "assigned_names seenNames [] = []"
| "assigned_names seenNames (name # names) =
     dedup_name seenNames name
       # assigned_names (Set_add (dedup_name seenNames name) seenNames) names"

definition filed :: "grouped \<Rightarrow> string \<Rightarrow> jsval EvaluationResult \<Rightarrow> bool" where
  "filed g name er \<longleftrightarrow>
     (case er_value er of
        JBool b \<Rightarrow> map_of (g_assertions g) name =
                     Some \<lparr>er_name = name, er_value = b, er_reason = er_reason er, er_source = er_source er\<rparr>
      | JNum n \<Rightarrow> map_of (g_scores g) name =
                     Some \<lparr>er_name = name, er_value = n, er_reason = er_reason er, er_source = er_source er\<rparr>
      | JStr s \<Rightarrow> map_of (g_labels g) name =
                     Some \<lparr>er_name = name, er_value = s, er_reason = er_reason er, er_source = er_source er\<rparr>
      | _ \<Rightarrow> True)"

text \<open>\<open>typeof v\<close> is \<open>'boolean'\<close>, \<open>'number'\<close>, \<open>'string'\<close>.\<close>

definition typeof_boolean :: "jsval \<Rightarrow> bool" where
  "typeof_boolean v = (case v of JBool _ \<Rightarrow> True | _ \<Rightarrow> False)"

definition typeof_number :: "jsval \<Rightarrow> bool" where
  "typeof_number v = (case v of JNum _ \<Rightarrow> True | _ \<Rightarrow> False)"

definition typeof_string :: "jsval \<Rightarrow> bool" where
  "typeof_string v = (case v of JStr _ \<Rightarrow> True | _ \<Rightarrow> False)"

text \<open>
  The names under which results of one type are filed: the assigned names of the results
  of that type, \<open>__proto__\<close> apart (an assignment to it makes no own property).
\<close>

definition names_of_type ::
    "(jsval \<Rightarrow> bool) \<Rightarrow> string list \<Rightarrow> jsval EvaluationResult list \<Rightarrow> string set" where
  "names_of_type is_type names results =
     set (map fst (filter (\<lambda>(name, er). is_type (er_value er) \<and> name \<noteq> ''__proto__'')
                          (zip names results)))"


text \<open>
  Sums of run-time numbers, as \<open>reduce((a, b) => a + b, 0)\<close> forms them, and the number
  in a \<open>Num\<close>.
\<close>

definition num_sum :: "num list \<Rightarrow> num" where
  "num_sum xs = foldl js_add (Num 0) xs"

fun the_number :: "num \<Rightarrow> rat" where
  "the_number (Num x) = x"
| "the_number NotNumber = 0"

text \<open>
  Label names and label values that are no property names of \<open>Object.prototype\<close>, in every
  case of a list.
\<close>

definition plain_labels :: "('i, 'o, 'm) ReportCase list \<Rightarrow> bool" where
  "plain_labels cases \<longleftrightarrow>
     (\<forall>c \<in> set cases. \<forall>e \<in> set (rc_labels c). \<not> inherited (fst e) \<and> \<not> inherited (er_value (snd e)))"

text \<open>
  Counting label entries: the entries under a name, and those under a name with a given
  value; \<open>tally_ok\<close> relates the two records of the label loop to these counts.
\<close>

definition occ :: "string \<Rightarrow> (string \<times> string EvaluationResult) list \<Rightarrow> nat" where
  "occ k es = length (filter (\<lambda>e. fst e = k) es)"

definition occv :: "string \<Rightarrow> string \<Rightarrow> (string \<times> string EvaluationResult) list \<Rightarrow> nat" where
  "occv k v es = length (filter (\<lambda>e. fst e = k \<and> er_value (snd e) = v) es)"

definition tally_ok ::
    "(string \<times> string EvaluationResult) list \<Rightarrow> num Record \<times> num Record Record \<Rightarrow> bool" where
  "tally_ok es acc \<longleftrightarrow>
     distinct (map fst (snd acc))
     \<and> (\<forall>k. map_of (fst acc) k = (if occ k es = 0 then None else Some (Num (of_nat (occ k es)))))
     \<and> (\<forall>k. (map_of (snd acc) k = None) = (occ k es = 0))
     \<and> (\<forall>k d. map_of (snd acc) k = Some d \<longrightarrow>
            distinct (map fst d)
            \<and> (\<forall>v. map_of d v = (if occv k v es = 0 then None else Some (Num (of_nat (occv k v es)))))
            \<and> sum_list (map (\<lambda>p. the_number (snd p)) d) = of_nat (occ k es))"

text \<open>The cases that carry a label name, and those that carry it with a given value.\<close>

definition cases_with_label :: "string \<Rightarrow> ('i, 'o, 'm) ReportCase list \<Rightarrow> nat" where
  "cases_with_label k cases = length (filter (\<lambda>c. map_of (rc_labels c) k \<noteq> None) cases)"

definition cases_with_label_value :: "string \<Rightarrow> string \<Rightarrow> ('i, 'o, 'm) ReportCase list \<Rightarrow> nat" where
  "cases_with_label_value k v cases =
     length (filter (\<lambda>c. map_option er_value (map_of (rc_labels c) k) = Some v) cases)"

text \<open>
  For aggregates: whether one reports a label name (has it as its own key), the frequency
  a distribution gives a value (zero when absent), the frequency an aggregate gives a
  value under a name, and the non-null assertion averages.
\<close>

definition has_label :: "string \<Rightarrow> ReportCaseAggregate \<Rightarrow> bool" where
  "has_label k a \<longleftrightarrow> map_of (agg_labels a) k \<noteq> None"

definition label_freq :: "num Record \<Rightarrow> string \<Rightarrow> num" where
  "label_freq freqs v = (case map_of freqs v of None \<Rightarrow> Num 0 | Some x \<Rightarrow> x)"

definition label_mass :: "ReportCaseAggregate \<Rightarrow> string \<Rightarrow> string \<Rightarrow> num" where
  "label_mass a k v = (case map_of (agg_labels a) k of None \<Rightarrow> Num 0 | Some freqs \<Rightarrow> label_freq freqs v)"

definition non_null_assertions :: "ReportCaseAggregate list \<Rightarrow> rat list" where
  "non_null_assertions aggregates =
     concat (map (\<lambda>a. case agg_assertions a of None \<Rightarrow> [] | Some x \<Rightarrow> [x]) aggregates)"

text \<open>
  The combination of label distributions as the specification words it: each group's
  frequency scaled by the group's sample count, the sum divided by the number of groups
  that report the name.  It is compared with \<open>averageFromAggregates\<close> below.
\<close>

definition count_weighted_mass :: "(nat \<times> ReportCaseAggregate) list \<Rightarrow> string \<Rightarrow> string \<Rightarrow> num" where
  "count_weighted_mass groups k v =
     js_div (num_sum (map (\<lambda>(n, a). case label_mass a k v of
                                       Num x \<Rightarrow> Num (of_nat n * x) | NotNumber \<Rightarrow> NotNumber)
                          (filter (\<lambda>(n, a). has_label k a) groups)))
            (Num (of_nat (length (filter (\<lambda>(n, a). has_label k a) groups))))"





section \<open>A concrete dataset\<close>

text \<open>
  Two cases, the first named; a task that throws on the input \<open>boom\<close>; three dataset
  evaluators whose class is called \<open>check\<close>, giving an assertion, a score and a label.  The
  evaluators are instances of the base classes: their name is the serialization name and
  their spec has no arguments.
\<close>

definition demo_stack :: engine_stack where
  "demo_stack name message = Some (name @ '': '' @ message @ '' (at demo)'')"

definition demo_evaluator :: "string \<Rightarrow> jsval \<Rightarrow> (string, string, unit) Evaluator" where
  "demo_evaluator n v =
     \<lparr>evaluate = (\<lambda>ctx. Inr v),
      getDefaultEvaluationName = Evaluator_getDefaultEvaluationName None (Inr n),
      asSpec = Inr \<lparr>spec_name = n, spec_arguments = NoArguments\<rparr>\<rparr>"

definition demo_throwing_evaluator :: "(string, string, unit) Evaluator" where
  "demo_throwing_evaluator =
     \<lparr>evaluate = (\<lambda>ctx. Inl (ThrownValue ''boom'')),
      getDefaultEvaluationName = Evaluator_getDefaultEvaluationName (Some ''named'') (Inr ''Bad''),
      asSpec = Inr \<lparr>spec_name = ''Bad'', spec_arguments = NoArguments\<rparr>\<rparr>"

text \<open>An evaluator whose \<open>evaluate\<close> throws and whose \<open>getFields\<close> throws inside \<open>asSpec\<close>.\<close>

definition demo_specless_evaluator :: "(string, string, unit) Evaluator" where
  "demo_specless_evaluator =
     \<lparr>evaluate = (\<lambda>ctx. Inl (ThrownValue ''boom'')),
      getDefaultEvaluationName = Evaluator_getDefaultEvaluationName None (Inr ''Specless''),
      asSpec = Inl (ThrownError \<lparr>err_name = ''Error'', err_message = ''no fields'',
                                  err_stack = Some ''Error: no fields (at getFields)''\<rparr>)\<rparr>"

definition demo_error :: js_error where
  "demo_error = \<lparr>err_name = ''RangeError'', err_message = ''too loud'',
                 err_stack = Some ''RangeError: too loud (at shout)''\<rparr>"

definition demo_task :: "(string, string) Task" where
  "demo_task =
     \<lparr>task_name = ''shout'',
      task_fn = (\<lambda>inputs j n.
        if inputs = ''boom''
        then ([IncrementEvalMetric ''tokens'' 1], Inl (ThrownError demo_error))
        else ([IncrementEvalMetric ''tokens'' 3], Inr inputs))\<rparr>"

text \<open>
  A task that throws on its first call in a unit and answers on the second; a task that
  throws an object without prototype, whose conversion to a string is a \<open>TypeError\<close>.
\<close>

definition demo_flaky_task :: "(string, string) Task" where
  "demo_flaky_task =
     \<lparr>task_name = ''flaky'',
      task_fn = (\<lambda>inputs j n.
        if n = 0 then ([], Inl (ThrownError demo_error)) else ([], Inr inputs))\<rparr>"

definition demo_bare_object :: thrown where
  "demo_bare_object =
     ThrownUnprintable
       (ThrownError \<lparr>err_name = ''TypeError'',
                     err_message = ''Cannot convert object to primitive value'',
                     err_stack = Some ''TypeError: Cannot convert object to primitive value (at String)''\<rparr>)"

definition demo_bare_task :: "(string, string) Task" where
  "demo_bare_task =
     \<lparr>task_name = ''bare'', task_fn = (\<lambda>inputs j n. ([], Inl demo_bare_object))\<rparr>"

definition demo_dataset :: "(string, string, unit, unit) Dataset" where
  "demo_dataset =
     \<lparr>ds_name = None,
      ds_cases =
        [\<lparr>case_name = Some ''x'', case_inputs = ''boom'', case_metadata = None,
          case_expectedOutput = None, case_evaluators = None\<rparr>,
         \<lparr>case_name = None, case_inputs = ''hello'', case_metadata = None,
          case_expectedOutput = None, case_evaluators = None\<rparr>],
      ds_evaluators =
        [demo_evaluator ''check'' (JBool True),
         demo_evaluator ''check'' (JNum (1 / 2)),
         demo_evaluator ''check'' (JStr ''good'')],
      ds_reportEvaluators = []\<rparr>"

text \<open>
  The same dataset with a report evaluator whose \<open>evaluate\<close> throws and whose \<open>asSpec\<close>
  throws.
\<close>

definition demo_report_evaluator :: "(string, string, unit, unit) ReportEvaluator" where
  "demo_report_evaluator =
     \<lparr>re_evaluate = (\<lambda>ctx. Inl (ThrownValue ''no analysis'')),
      re_getSerializationName = Inr ''Broken'',
      re_asSpec = Inl (ThrownError \<lparr>err_name = ''Error'', err_message = ''no fields'',
                                     err_stack = Some ''Error: no fields (at getFields)''\<rparr>)\<rparr>"

definition demo_analysed_dataset :: "(string, string, unit, unit) Dataset" where
  "demo_analysed_dataset = demo_dataset\<lparr>ds_reportEvaluators := [demo_report_evaluator]\<rparr>"

definition demo_runtime :: runtime where
  "demo_runtime =
     \<lparr>rt_pLimit = pLimit_check demo_stack, rt_otel = OtelNotInstalled,
      rt_durations = (\<lambda>j. (1, 2)), rt_stack = demo_stack\<rparr>"

definition demo_otel_runtime :: runtime where
  "demo_otel_runtime = demo_runtime\<lparr>rt_otel := OtelConfigured\<rparr>"

definition demo_options :: "int option \<Rightarrow> int option \<Rightarrow> EvaluateOptions" where
  "demo_options repeat maxConcurrency =
     \<lparr>opt_name = None, opt_maxConcurrency = maxConcurrency, opt_repeat = repeat,
      opt_metadata = None\<rparr>"

definition demo_context :: "(string, string, unit) EvaluatorContext" where
  "demo_context =
     \<lparr>ctx_name = None, ctx_inputs = ''hello'', ctx_metadata = None, ctx_expectedOutput = None,
      ctx_output = ''hello'', ctx_duration = 1, ctx_attributes = [], ctx_metrics = [],
      ctx_spanTreeOrError = SpanTreeCaptured\<rparr>"

definition demo_result :: "jsval \<Rightarrow> jsval EvaluationResult" where
  "demo_result v =
     \<lparr>er_name = ''check'', er_value = v, er_reason = JNull,
      er_source = \<lparr>spec_name = ''check'', spec_arguments = NoArguments\<rparr>\<rparr>"

text \<open>Report cases built by hand, for the aggregation functions.\<close>

definition demo_entry :: "string \<times> 'v \<Rightarrow> string \<times> 'v EvaluationResult" where
  "demo_entry e =
     (fst e, \<lparr>er_name = fst e, er_value = snd e, er_reason = JNull,
               er_source = \<lparr>spec_name = ''demo'', spec_arguments = NoArguments\<rparr>\<rparr>)"

definition demo_report_case ::
    "string \<Rightarrow> string option \<Rightarrow> (string \<times> rat) list \<Rightarrow> (string \<times> string) list
      \<Rightarrow> (string \<times> bool) list \<Rightarrow> (string, string, unit) ReportCase" where
  "demo_report_case name source scores labels assertions =
     \<lparr>rc_name = name, rc_inputs = ''in'', rc_metadata = None, rc_expectedOutput = None,
      rc_output = ''out'', rc_metrics = [], rc_attributes = [],
      rc_scores = map demo_entry scores, rc_labels = map demo_entry labels,
      rc_assertions = map demo_entry assertions,
      rc_taskDuration = 1, rc_totalDuration = 2, rc_sourceCaseName = source,
      rc_traceId = None, rc_spanId = None, rc_evaluatorFailures = []\<rparr>"

definition demo_label_cases :: "(string, string, unit) ReportCase list" where
  "demo_label_cases =
     [demo_report_case ''r1'' (Some ''g'') [(''s'', 1)] [(''cat'', ''a'')] [(''p'', True)],
      demo_report_case ''r2'' (Some ''g'') [(''s'', 0)] [(''cat'', ''a'')] [(''p'', False)],
      demo_report_case ''r3'' (Some ''h'') [] [(''cat'', ''b'')] []]"

text \<open>The runs of the two source cases \<open>g\<close> and \<open>h\<close> among them.\<close>

definition demo_group_g :: "(string, string, unit) ReportCase list" where
  "demo_group_g = filter (\<lambda>c. rc_sourceCaseName c = Some ''g'') demo_label_cases"

definition demo_group_h :: "(string, string, unit) ReportCase list" where
  "demo_group_h = filter (\<lambda>c. rc_sourceCaseName c = Some ''h'') demo_label_cases"

text \<open>An aggregate with given label distributions, as a caller of \<open>averageFromAggregates\<close> may pass it.\<close>

definition demo_aggregate :: "num Record Record \<Rightarrow> ReportCaseAggregate" where
  "demo_aggregate labels = empty_aggregate\<lparr>agg_labels := labels\<rparr>"




section \<open>The orchestrator: auxiliary facts\<close>

lemma fold_classify_step:
  "fold classify_step results (cs, fs) = (cs @ cases_of results, fs @ failures_of results)"
  by (induction results arbitrary: cs fs)
     (auto simp: classify_step_def cases_of_def failures_of_def split: unit_result.splits)

lemma length_cases_failures:
  "length (cases_of results) + length (failures_of results) = length results"
  by (induction results) (auto simp: cases_of_def failures_of_def split: unit_result.splits)

lemma Promise_all_InrD: "Promise_all runs = Inr rs \<Longrightarrow> runs = map Inr rs"
proof (induction runs arbitrary: rs)
  case Nil
  then show ?case by simp
next
  case (Cons r runs)
  show ?case
  proof (cases r)
    case (Inl e)
    with Cons.prems show ?thesis by simp
  next
    case (Inr x)
    with Cons.prems obtain xs where "Promise_all runs = Inr xs" and "rs = x # xs"
      by (auto split: sum.splits)
    with Cons.IH[of xs] Inr show ?thesis by simp
  qed
qed

lemma Promise_all_map_Inr: "Promise_all (map Inr rs) = Inr rs"
  by (induction rs) simp_all

lemma Promise_all_InlD: "Promise_all runs = Inl e \<Longrightarrow> Inl e \<in> set runs"
proof (induction runs)
  case Nil
  then show ?case by simp
next
  case (Cons r runs)
  then show ?case by (cases r) (auto split: sum.splits)
qed

lemma Promise_all_returns:
  assumes "\<And>e. Inl e \<notin> set runs"
  shows "\<exists>rs. Promise_all runs = Inr rs"
proof (cases "Promise_all runs")
  case (Inl e)
  from Promise_all_InlD[OF this] assms show ?thesis by blast
next
  case (Inr rs)
  then show ?thesis by blast
qed

lemma returned_map_Inr:
  "concat (map (\<lambda>run. case run of Inr item \<Rightarrow> [item] | Inl _ \<Rightarrow> []) (map Inr rs)) = rs"
  by (induction rs) simp_all

lemma unit_results_returned:
  "unit_runs rt ds task repeat = map Inr rs \<Longrightarrow> unit_results rt ds task repeat = rs"
  unfolding unit_results_def by (simp only: returned_map_Inr)

lemma report_evaluator_step_keeps:
  assumes "report_evaluator_step stack n m re report = Inr report'"
  shows "rep_cases report' = rep_cases report"
    and "rep_failures report' = rep_failures report"
    and "rep_name report' = rep_name report"
  using assms
  by (auto simp: report_evaluator_step_def split: sum.splits report_evaluator_output.splits)

lemma runReportEvaluators_keeps:
  assumes "runReportEvaluators stack n m res report = Inr report'"
  shows "rep_cases report' = rep_cases report \<and> rep_failures report' = rep_failures report
           \<and> rep_name report' = rep_name report"
  using assms
proof (induction res arbitrary: report)
  case Nil
  then show ?case by simp
next
  case (Cons re res)
  then obtain r1 where s: "report_evaluator_step stack n m re report = Inr r1"
    and r: "runReportEvaluators stack n m res r1 = Inr report'"
    by (auto split: sum.splits)
  from Cons.IH[OF r] report_evaluator_step_keeps[OF s] show ?case by simp
qed

lemma as_error_printable: "printable e \<Longrightarrow> \<exists>error. as_error stack e = Inr error"
  by (cases e) simp_all

lemma report_evaluator_step_returns:
  assumes "safe_report_evaluator re"
  shows "\<exists>report'. report_evaluator_step stack n m re report = Inr report'"
proof (cases "re_evaluate re \<lparr>rctx_name = n, rctx_report = report, rctx_experimentMetadata = m\<rparr>")
  case (Inl e)
  with assms have p: "printable e" and "\<exists>name. re_getSerializationName re = Inr name"
    and "\<exists>source. re_asSpec re = Inr source"
    unfolding safe_report_evaluator_def by blast+
  then obtain name source error where "re_getSerializationName re = Inr name"
    "re_asSpec re = Inr source" "as_error stack e = Inr error"
    using as_error_printable[OF p] by blast
  with Inl show ?thesis by (simp add: report_evaluator_step_def)
next
  case (Inr out)
  then show ?thesis by (cases out) (simp_all add: report_evaluator_step_def)
qed

lemma runReportEvaluators_returns:
  assumes "\<forall>re \<in> set res. safe_report_evaluator re"
  shows "\<exists>report'. runReportEvaluators stack n m res report = Inr report'"
  using assms
proof (induction res arbitrary: report)
  case Nil
  then show ?case by simp
next
  case (Cons re res)
  then obtain r1 where "report_evaluator_step stack n m re report = Inr r1"
    using report_evaluator_step_returns[of re stack n m report] by auto
  with Cons show ?case by simp
qed

lemma length_concat_const:
  "(\<And>x. x \<in> set xs \<Longrightarrow> length (f x) = k) \<Longrightarrow> length (concat (map f xs)) = length xs * k"
  by (induction xs) (simp_all add: length_concat)

lemma length_buildTasksToRun:
  "1 \<le> repeat \<Longrightarrow> length (buildTasksToRun cases repeat) = length cases * nat repeat"
proof (cases "repeat > 1")
  case True
  have "length (buildTasksToRun cases repeat) = length (enumerate 0 cases) * nat repeat"
    unfolding buildTasksToRun_def using True
    by (simp only: if_True, intro length_concat_const) (auto simp: Let_def)
  then show ?thesis by simp
next
  case False
  assume "1 \<le> repeat"
  with False have "repeat = 1" by simp
  then show ?thesis by (simp add: buildTasksToRun_def)
qed

lemma length_unit_runs:
  "length (unit_runs rt ds task repeat) = length (buildTasksToRun (ds_cases ds) repeat)"
  by (simp add: unit_runs_def)

lemma units_from_cases:
  assumes "(c, reportName, sourceName) \<in> set (buildTasksToRun cases repeat)"
  shows "c \<in> set cases"
  using assms
  by (auto simp: buildTasksToRun_def Let_def in_set_enumerate_eq split: if_splits)

text \<open>The task under span capture and in its task-run context.\<close>

lemma withSpanCapture_throws:
  "(\<And>n. snd (fn n) = Inl e) \<Longrightarrow> snd (withSpanCapture otel fn) = Inl e"
  by (cases otel) (simp_all add: withSpanCapture_def)

lemma withSpanCapture_thrown:
  "snd (withSpanCapture otel fn) = Inl e \<Longrightarrow> \<exists>n. snd (fn n) = Inl e"
  by (cases otel) (auto simp: withSpanCapture_def split: sum.splits)

lemma withSpanCapture_ok:
  "snd (fn 0) = Inr r \<Longrightarrow> \<exists>st. withSpanCapture otel fn = (fst (fn 0), Inr (r, st))"
  by (cases otel) (simp_all add: withSpanCapture_def)

lemma withTaskRun_Inl: "withTaskRun fn = Inl e \<longleftrightarrow> snd fn = Inl e"
  by (auto simp: withTaskRun_def Let_def split: sum.splits)

lemma withTaskRun_ok: "snd fn = Inr r \<Longrightarrow> \<exists>a m. withTaskRun fn = Inr (r, a, m)"
  by (simp add: withTaskRun_def Let_def)

lemma unit_failure_printable:
  "as_error stack e = Inr error \<Longrightarrow>
   unit_failure stack c reportCaseName sourceCaseName e =
     Inr (FailureResult
           \<lparr>rf_name = reportCaseName,
            rf_inputs = case_inputs c,
            rf_metadata = case_metadata c,
            rf_expectedOutput = case_expectedOutput c,
            rf_errorMessage = err_name error @ '': '' @ err_message error,
            rf_errorStacktrace = (case err_stack error of None \<Rightarrow> [] | Some s \<Rightarrow> s),
            rf_sourceCaseName = sourceCaseName,
            rf_traceId = None,
            rf_spanId = None\<rparr>)"
  by (simp add: unit_failure_def error_message_of_def error_stack_of_def)

lemma runTaskAndEvaluators_throw:
  assumes "\<And>n. snd (task_fn task (case_inputs c) j n) = Inl e"
  shows "runTaskAndEvaluators rt j evs task c reportCaseName sourceCaseName =
           unit_failure (rt_stack rt) c reportCaseName sourceCaseName e"
proof -
  have "snd (withSpanCapture (rt_otel rt) (task_fn task (case_inputs c) j)) = Inl e"
    using assms by (rule withSpanCapture_throws)
  then have "withTaskRun (withSpanCapture (rt_otel rt) (task_fn task (case_inputs c) j)) = Inl e"
    by (simp add: withTaskRun_Inl)
  then show ?thesis by (simp add: runTaskAndEvaluators_def)
qed

section \<open>The evaluator runner: auxiliary facts\<close>

lemma runEvaluator_throw:
  "getDefaultEvaluationName ev = Inr name \<Longrightarrow> asSpec ev = Inr source \<Longrightarrow>
   evaluate ev ctx = Inl e \<Longrightarrow> as_error stack e = Inr error \<Longrightarrow>
   runEvaluator stack ev ctx =
     Inr (Inl \<lparr>ef_name = name,
               ef_errorMessage = err_name error @ '': '' @ err_message error,
               ef_errorStacktrace = (case err_stack error of None \<Rightarrow> [] | Some s \<Rightarrow> s),
               ef_source = source\<rparr>)"
  by (simp add: runEvaluator_def runEvaluator_try_def runEvaluator_catch_def error_message_of_def
        error_stack_of_def)

lemma not_reason_scalar: "isEvaluationScalar v \<Longrightarrow> \<not> isEvaluationReason v"
  by (cases v) (simp_all add: isEvaluationScalar_def isEvaluationReason_def)

lemma entries_of_scalar:
  "isEvaluationScalar v \<or> isEvaluationReason v \<Longrightarrow>
   object_entries stack (normalizeToMapping v name) = Inr [(name, v)]"
  by (simp add: normalizeToMapping_def)

lemma runEvaluator_scalar:
  "getDefaultEvaluationName ev = Inr name \<Longrightarrow> asSpec ev = Inr source \<Longrightarrow>
   evaluate ev ctx = Inr v \<Longrightarrow> isEvaluationScalar v \<Longrightarrow>
   runEvaluator stack ev ctx =
     Inr (Inr [\<lparr>er_name = name, er_value = v, er_reason = JNull, er_source = source\<rparr>])"
  by (simp add: runEvaluator_def runEvaluator_try_def entries_of_scalar detail_of_def
        not_reason_scalar)

lemma runEvaluator_reason:
  "getDefaultEvaluationName ev = Inr name \<Longrightarrow> asSpec ev = Inr source \<Longrightarrow>
   evaluate ev ctx = Inr (JObj props) \<Longrightarrow> map_of props ''value'' = Some x \<Longrightarrow> isEvaluationScalar x \<Longrightarrow>
   runEvaluator stack ev ctx =
     Inr (Inr [\<lparr>er_name = name, er_value = x,
                er_reason = or_null (prop_get (JObj props) ''reason''), er_source = source\<rparr>])"
proof -
  assume a: "getDefaultEvaluationName ev = Inr name" "asSpec ev = Inr source"
    "evaluate ev ctx = Inr (JObj props)" "map_of props ''value'' = Some x" "isEvaluationScalar x"
  then have r: "isEvaluationReason (JObj props)" by (simp add: isEvaluationReason_def)
  then have "object_entries stack (normalizeToMapping (JObj props) name) = Inr [(name, JObj props)]"
    by (simp add: entries_of_scalar)
  with a r show ?thesis
    by (simp add: runEvaluator_def runEvaluator_try_def detail_of_def prop_get_def)
qed

lemma runEvaluator_map:
  "getDefaultEvaluationName ev = Inr name \<Longrightarrow> asSpec ev = Inr source \<Longrightarrow>
   evaluate ev ctx = Inr (JObj props) \<Longrightarrow> \<not> isEvaluationReason (JObj props) \<Longrightarrow>
   runEvaluator stack ev ctx = Inr (Inr (map (detail_of source) props))"
  by (simp add: runEvaluator_def runEvaluator_try_def normalizeToMapping_def isEvaluationScalar_def)

lemma runEvaluator_nullish:
  "getDefaultEvaluationName ev = Inr name \<Longrightarrow> asSpec ev = Inr source \<Longrightarrow>
   evaluate ev ctx = Inr v \<Longrightarrow> v = JNull \<or> v = JUndefined \<Longrightarrow>
   runEvaluator stack ev ctx =
     Inr (Inl \<lparr>ef_name = name,
               ef_errorMessage = ''TypeError: Cannot convert undefined or null to object'',
               ef_errorStacktrace =
                 (case stack ''TypeError'' ''Cannot convert undefined or null to object'' of
                    None \<Rightarrow> [] | Some s \<Rightarrow> s),
               ef_source = source\<rparr>)"
  by (auto simp: runEvaluator_def runEvaluator_try_def runEvaluator_catch_def normalizeToMapping_def
        isEvaluationScalar_def isEvaluationReason_def entries_TypeError_def new_Error_def
        error_message_of_def error_stack_of_def)

lemma object_entries_printable: "object_entries stack v = Inl e \<Longrightarrow> printable e"
  by (cases v) (auto simp: entries_TypeError_def)

lemma runEvaluator_try_thrown:
  assumes "runEvaluator_try stack ev ctx = Inl e"
  shows "evaluate ev ctx = Inl e \<or> getDefaultEvaluationName ev = Inl e \<or> asSpec ev = Inl e
           \<or> (\<exists>v. object_entries stack v = Inl e)"
  using assms by (auto simp: runEvaluator_try_def split: sum.splits if_splits)

lemma runEvaluator_returns:
  assumes "getDefaultEvaluationName ev = Inr name" and "asSpec ev = Inr source"
    and "\<And>e. evaluate ev ctx = Inl e \<Longrightarrow> printable e"
  shows "\<exists>out. runEvaluator stack ev ctx = Inr out"
proof (cases "runEvaluator_try stack ev ctx")
  case (Inr details)
  then show ?thesis by (simp add: runEvaluator_def)
next
  case (Inl e)
  from runEvaluator_try_thrown[OF this] assms have "printable e"
    by (auto dest: object_entries_printable)
  then obtain error where "as_error stack e = Inr error"
    using as_error_printable by blast
  with Inl assms(1,2) show ?thesis
    by (simp add: runEvaluator_def runEvaluator_catch_def)
qed

lemma runEvaluator_escape_printable:
  assumes "printable_evaluator ev" and "runEvaluator stack ev ctx = Inl e"
  shows "printable e"
proof (cases "runEvaluator_try stack ev ctx")
  case (Inr details)
  with assms(2) show ?thesis by (simp add: runEvaluator_def)
next
  case (Inl e0)
  from runEvaluator_try_thrown[OF this] assms(1) have p0: "printable e0"
    unfolding printable_evaluator_def by (auto dest: object_entries_printable)
  then obtain error where er: "as_error stack e0 = Inr error"
    using as_error_printable by blast
  from assms(2) Inl er have "getDefaultEvaluationName ev = Inl e \<or> asSpec ev = Inl e"
    by (auto simp: runEvaluator_def runEvaluator_catch_def split: sum.splits)
  with assms(1) show ?thesis unfolding printable_evaluator_def by blast
qed

lemma er_name_detail_of: "er_name (detail_of source entry) = fst entry"
  by (cases entry) (simp add: detail_of_def)

lemma er_value_detail_of:
  "er_value (detail_of source entry) =
     (if isEvaluationReason (snd entry) then prop_get (snd entry) ''value'' else snd entry)"
  by (cases entry) (simp add: detail_of_def)

lemma er_reason_detail_of:
  "er_reason (detail_of source entry) =
     (if isEvaluationReason (snd entry) then or_null (prop_get (snd entry) ''reason'') else JNull)"
  by (cases entry) (simp add: detail_of_def)

lemma er_source_detail_of: "er_source (detail_of source entry) = source"
  by (cases entry) (simp add: detail_of_def)

section \<open>Units: auxiliary facts\<close>

lemma in_set_mapD: "y \<in> set (map f xs) \<Longrightarrow> \<exists>x \<in> set xs. f x = y"
  by auto

lemma runTaskAndEvaluators_returns:
  assumes "printable_task task"
    and "\<forall>ev \<in> set ((case case_evaluators c of None \<Rightarrow> [] | Some evs \<Rightarrow> evs) @ evs0). printable_evaluator ev"
  shows "\<exists>item. runTaskAndEvaluators rt j evs0 task c reportCaseName sourceCaseName = Inr item"
proof -
  let ?run = "withTaskRun (withSpanCapture (rt_otel rt) (task_fn task (case_inputs c) j))"
  have fail: "\<exists>item. unit_failure (rt_stack rt) c reportCaseName sourceCaseName e = Inr item"
    if "printable e" for e
    using as_error_printable[OF that, of "rt_stack rt"] by (auto simp: unit_failure_def)
  show ?thesis
  proof (cases ?run)
    case (Inl e)
    then have "snd (withSpanCapture (rt_otel rt) (task_fn task (case_inputs c) j)) = Inl e"
      by (simp add: withTaskRun_Inl)
    from withSpanCapture_thrown[OF this] assms(1) have "printable e"
      unfolding printable_task_def by blast
    from fail[OF this] Inl show ?thesis by (simp add: runTaskAndEvaluators_def)
  next
    case (Inr r)
    obtain outp spanTree attributes metrics where r: "r = ((outp, spanTree), attributes, metrics)"
      by (cases r) auto
    let ?ctx = "\<lparr>ctx_name = case_name c, ctx_inputs = case_inputs c, ctx_metadata = case_metadata c,
                  ctx_expectedOutput = case_expectedOutput c, ctx_output = outp,
                  ctx_duration = fst (rt_durations rt j), ctx_attributes = attributes,
                  ctx_metrics = metrics, ctx_spanTreeOrError = spanTree\<rparr>"
    let ?all = "(case case_evaluators c of None \<Rightarrow> [] | Some evs \<Rightarrow> evs) @ evs0"
    let ?outs = "if length ?all > 0
                 then Promise_all (map (\<lambda>ev. runEvaluator (rt_stack rt) ev ?ctx) ?all) else Inr []"
    show ?thesis
    proof (cases ?outs)
      case (Inl e)
      then have "Promise_all (map (\<lambda>ev. runEvaluator (rt_stack rt) ev ?ctx) ?all) = Inl e"
        by (simp split: if_splits)
      from in_set_mapD[OF Promise_all_InlD[OF this]] obtain ev where "ev \<in> set ?all"
        and "runEvaluator (rt_stack rt) ev ?ctx = Inl e" by blast
      with assms(2) have "printable e" by (auto dest: runEvaluator_escape_printable)
      from fail[OF this] Inl Inr r show ?thesis
        by (simp add: runTaskAndEvaluators_def Let_def)
    next
      case inr: (Inr results)
      with Inr r show ?thesis
        by (simp add: runTaskAndEvaluators_def Let_def split: prod.splits)
    qed
  qed
qed

lemma runTaskAndEvaluators_ok:
  assumes "snd (task_fn task (case_inputs c) j 0) = Inr out"
    and "\<forall>ev \<in> set ((case case_evaluators c of None \<Rightarrow> [] | Some evs \<Rightarrow> evs) @ evs0). contained_evaluator ev"
  shows "\<exists>rc. runTaskAndEvaluators rt j evs0 task c reportCaseName sourceCaseName = Inr (CaseResult rc)
            \<and> rc_output rc = out \<and> rc_name rc = reportCaseName \<and> rc_sourceCaseName rc = sourceCaseName"
proof -
  obtain st where "withSpanCapture (rt_otel rt) (task_fn task (case_inputs c) j)
      = (fst (task_fn task (case_inputs c) j 0), Inr (out, st))"
    using withSpanCapture_ok[of "task_fn task (case_inputs c) j" out "rt_otel rt"] assms(1) by blast
  then obtain a m where run:
    "withTaskRun (withSpanCapture (rt_otel rt) (task_fn task (case_inputs c) j)) = Inr ((out, st), a, m)"
    using withTaskRun_ok[of "withSpanCapture (rt_otel rt) (task_fn task (case_inputs c) j)" "(out, st)"]
    by auto
  let ?ctx = "\<lparr>ctx_name = case_name c, ctx_inputs = case_inputs c, ctx_metadata = case_metadata c,
                ctx_expectedOutput = case_expectedOutput c, ctx_output = out,
                ctx_duration = fst (rt_durations rt j), ctx_attributes = a,
                ctx_metrics = m, ctx_spanTreeOrError = st\<rparr>"
  let ?all = "(case case_evaluators c of None \<Rightarrow> [] | Some evs \<Rightarrow> evs) @ evs0"
  have "\<And>e. Inl e \<notin> set (map (\<lambda>ev. runEvaluator (rt_stack rt) ev ?ctx) ?all)"
  proof
    fix e assume "Inl e \<in> set (map (\<lambda>ev. runEvaluator (rt_stack rt) ev ?ctx) ?all)"
    from in_set_mapD[OF this] obtain ev where ev: "ev \<in> set ?all"
      and esc: "runEvaluator (rt_stack rt) ev ?ctx = Inl e"
      by blast
    from ev assms(2) have "contained_evaluator ev" by blast
    then obtain name source where n: "getDefaultEvaluationName ev = Inr name"
      and s: "asSpec ev = Inr source" and p: "\<forall>ctx e. evaluate ev ctx = Inl e \<longrightarrow> printable e"
      unfolding contained_evaluator_def by blast
    from p have "\<And>e. evaluate ev ?ctx = Inl e \<Longrightarrow> printable e" by blast
    from runEvaluator_returns[where stack = "rt_stack rt" and ctx = ?ctx, OF n s this] esc
    show False by auto
  qed
  from Promise_all_returns[OF this] obtain results where
    "Promise_all (map (\<lambda>ev. runEvaluator (rt_stack rt) ev ?ctx) ?all) = Inr results" by blast
  with run show ?thesis
    by (simp add: runTaskAndEvaluators_def Let_def split: prod.splits)
qed

lemma unit_failure_names:
  "unit_failure stack c reportName sourceName e = Inr item \<Longrightarrow>
   result_name item = reportName \<and> result_sourceCaseName item = sourceName"
  by (auto simp: unit_failure_def split: sum.splits)

lemma result_names_run:
  assumes "runTaskAndEvaluators rt j evs task c reportName sourceName = Inr item"
  shows "result_name item = reportName \<and> result_sourceCaseName item = sourceName"
  using assms
  by (auto simp: runTaskAndEvaluators_def Let_def dest: unit_failure_names
           split: sum.splits prod.splits if_splits)

lemma unit_runs_nth:
  assumes "j < length (buildTasksToRun (ds_cases ds) repeat)"
    and "buildTasksToRun (ds_cases ds) repeat ! j = (c, reportName, sourceName)"
  shows "unit_runs rt ds task repeat ! j =
           runTaskAndEvaluators rt j (ds_evaluators ds) task c reportName sourceName"
  using assms by (simp add: unit_runs_def nth_enumerate_eq)

lemma unit_runs_return:
  assumes "handlers_safe ds task"
  shows "\<exists>results. Promise_all (unit_runs rt ds task repeat) = Inr results"
proof (rule Promise_all_returns)
  fix e
  show "Inl e \<notin> set (unit_runs rt ds task repeat)"
  proof
    assume "Inl e \<in> set (unit_runs rt ds task repeat)"
    then obtain j where j: "j < length (buildTasksToRun (ds_cases ds) repeat)"
      and rj: "unit_runs rt ds task repeat ! j = Inl e"
      by (auto simp: in_set_conv_nth length_unit_runs)
    obtain c reportName sourceName where
      n: "buildTasksToRun (ds_cases ds) repeat ! j = (c, reportName, sourceName)"
      by (cases "buildTasksToRun (ds_cases ds) repeat ! j") auto
    from j n have u: "(c, reportName, sourceName) \<in> set (buildTasksToRun (ds_cases ds) repeat)"
      by (metis nth_mem)
    from unit_runs_nth[OF j n] rj
    have r: "runTaskAndEvaluators rt j (ds_evaluators ds) task c reportName sourceName = Inl e"
      by simp
    from units_from_cases[OF u] have c: "c \<in> set (ds_cases ds)" .
    have "\<forall>ev \<in> set ((case case_evaluators c of None \<Rightarrow> [] | Some evs \<Rightarrow> evs)
                          @ ds_evaluators ds). printable_evaluator ev"
    proof (cases "case_evaluators c")
      case None
      with assms show ?thesis by (simp add: handlers_safe_def)
    next
      case (Some evs)
      with assms c have "\<forall>ev \<in> set evs. printable_evaluator ev"
        unfolding handlers_safe_def by blast
      with assms Some show ?thesis by (auto simp: handlers_safe_def)
    qed
    moreover from assms have "printable_task task" by (simp add: handlers_safe_def)
    ultimately obtain item where
      "runTaskAndEvaluators rt j (ds_evaluators ds) task c reportName sourceName = Inr item"
      using runTaskAndEvaluators_returns by blast
    with r show False by simp
  qed
qed

lemma evaluate_ds_repeat_error:
  "repeat_of opts < 1 \<Longrightarrow>
   evaluate_ds rt ds task opts = Inl (repeat_error (rt_stack rt) (repeat_of opts))"
  by (simp add: evaluate_ds_def Let_def)

lemma evaluate_ds_limit_error:
  "1 \<le> repeat_of opts \<Longrightarrow> rt_pLimit rt (limit_argument opts) = Some e
     \<Longrightarrow> evaluate_ds rt ds task opts = Inl e"
  by (simp add: evaluate_ds_def Let_def)

lemma evaluate_ds_InrD:
  assumes "evaluate_ds rt ds task opts = Inr report"
  shows "1 \<le> repeat_of opts" and "rt_pLimit rt (limit_argument opts) = None"
    and "unit_runs rt ds task (repeat_of opts) = map Inr (unit_results rt ds task (repeat_of opts))"
    and "rep_cases report = cases_of (unit_results rt ds task (repeat_of opts))"
    and "rep_failures report = failures_of (unit_results rt ds task (repeat_of opts))"
proof -
  let ?name = "(case opt_name opts of Some n \<Rightarrow> n
                | None \<Rightarrow> if task_name task \<noteq> [] then task_name task else ''task'')"
  show r: "1 \<le> repeat_of opts"
    using assms by (auto simp: evaluate_ds_def Let_def split: if_splits)
  show l: "rt_pLimit rt (limit_argument opts) = None"
    using assms by (auto simp: evaluate_ds_def Let_def split: if_splits option.splits)
  from assms r l obtain results where p: "Promise_all (unit_runs rt ds task (repeat_of opts)) = Inr results"
    by (cases "Promise_all (unit_runs rt ds task (repeat_of opts))")
       (auto simp: evaluate_ds_def Let_def)
  from Promise_all_InrD[OF p] have u: "unit_runs rt ds task (repeat_of opts) = map Inr results" .
  from unit_results_returned[OF u] have res: "unit_results rt ds task (repeat_of opts) = results" .
  with u show "unit_runs rt ds task (repeat_of opts) = map Inr (unit_results rt ds task (repeat_of opts))"
    by simp
  let ?report0 = "createEvaluationReport ?name (cases_of results) (Some (failures_of results))
                    (opt_metadata opts) :: ('a, 'b, 'c, 'd) EvaluationReport"
  from assms r l p have "report = ?report0
      \<or> runReportEvaluators (rt_stack rt) ?name (opt_metadata opts) (ds_reportEvaluators ds) ?report0
          = Inr report"
    by (auto simp: evaluate_ds_def Let_def fold_classify_step split: if_splits)
  then have "rep_cases report = cases_of results \<and> rep_failures report = failures_of results"
    by (auto dest: runReportEvaluators_keeps simp: createEvaluationReport_def)
  with res show "rep_cases report = cases_of (unit_results rt ds task (repeat_of opts))"
    and "rep_failures report = failures_of (unit_results rt ds task (repeat_of opts))"
    by simp_all
qed

lemma evaluate_ds_returns:
  assumes "1 \<le> repeat_of opts" and "rt_pLimit rt (limit_argument opts) = None"
    and "handlers_safe ds task"
  shows "\<exists>report. evaluate_ds rt ds task opts = Inr report"
proof -
  let ?name = "(case opt_name opts of Some n \<Rightarrow> n
                | None \<Rightarrow> if task_name task \<noteq> [] then task_name task else ''task'')"
  from unit_runs_return[OF assms(3)] obtain results where
    p: "Promise_all (unit_runs rt ds task (repeat_of opts)) = Inr results" by blast
  let ?report0 = "createEvaluationReport ?name (cases_of results) (Some (failures_of results))
                    (opt_metadata opts) :: ('a, 'b, 'c, 'd) EvaluationReport"
  from assms(3) have "\<forall>re \<in> set (ds_reportEvaluators ds). safe_report_evaluator re"
    by (simp add: handlers_safe_def)
  from runReportEvaluators_returns[OF this] obtain report' where
    "runReportEvaluators (rt_stack rt) ?name (opt_metadata opts) (ds_reportEvaluators ds) ?report0
       = Inr report'" by blast
  with assms(1,2) p show ?thesis
    by (simp add: evaluate_ds_def Let_def fold_classify_step)
qed

lemma length_unit_results:
  assumes "evaluate_ds rt ds task opts = Inr report"
  shows "length (unit_results rt ds task (repeat_of opts)) = length (ds_cases ds) * nat (repeat_of opts)"
proof -
  note D = evaluate_ds_InrD[OF assms]
  have "length (unit_results rt ds task (repeat_of opts))
          = length (map Inr (unit_results rt ds task (repeat_of opts))
                      :: (thrown + ('a, 'b, 'c) unit_result) list)"
    by simp
  also have "\<dots> = length (unit_runs rt ds task (repeat_of opts))" by (simp only: D(3))
  also have "\<dots> = length (ds_cases ds) * nat (repeat_of opts)"
    by (simp add: length_unit_runs length_buildTasksToRun[OF D(1)])
  finally show ?thesis .
qed

section \<open>Unit names: auxiliary facts\<close>

lemma nth_concat_const:
  "(\<And>x. x \<in> set xs \<Longrightarrow> length (f x) = r) \<Longrightarrow> i < length xs \<Longrightarrow> k < r
     \<Longrightarrow> concat (map f xs) ! (i * r + k) = f (xs ! i) ! k"
proof (induction xs arbitrary: i)
  case Nil
  then show ?case by simp
next
  case (Cons x xs)
  show ?case
  proof (cases i)
    case 0
    with Cons.prems show ?thesis by (simp add: nth_append)
  next
    case (Suc i')
    have "length (f x) = r" using Cons.prems(1) by simp
    moreover have "concat (map f xs) ! (i' * r + k) = f (xs ! i') ! k"
      using Cons.prems Suc by (intro Cons.IH) auto
    ultimately show ?thesis using Suc by (simp add: nth_append)
  qed
qed

lemma show_int_nat: "0 \<le> r \<Longrightarrow> show_int r = show_nat (nat r)"
  by (simp add: show_int_def)

lemma buildTasksToRun_once:
  "buildTasksToRun cases 1 = map (\<lambda>(i, c). (c, case_display_name i c, None)) (enumerate 0 cases)"
  by (simp add: buildTasksToRun_def)

lemma buildTasksToRun_once_nth:
  "i < length cases \<Longrightarrow>
   buildTasksToRun cases 1 ! i = (cases ! i, case_display_name i (cases ! i), None)"
  by (simp add: buildTasksToRun_once nth_enumerate_eq)

lemma buildTasksToRun_repeat_nth:
  assumes "1 < repeat" and "i < length cases" and "k < nat repeat"
  shows "buildTasksToRun cases repeat ! (i * nat repeat + k) =
           (cases ! i,
            case_display_name i (cases ! i) @ '' ['' @ show_nat (k + 1) @ ''/''
              @ show_nat (nat repeat) @ '']'',
            Some (case_display_name i (cases ! i)))"
proof -
  let ?f = "\<lambda>(i, c). let caseName = case_display_name i c
            in map (\<lambda>runIdx.
                  (c, caseName @ '' ['' @ show_nat (runIdx + 1) @ ''/'' @ show_int repeat @ '']'',
                   Some caseName))
                 [0 ..< nat repeat]"
  have b: "buildTasksToRun cases repeat = concat (map ?f (enumerate 0 cases))"
    using assms(1) by (simp add: buildTasksToRun_def)
  have "concat (map ?f (enumerate 0 cases)) ! (i * nat repeat + k) = ?f (enumerate 0 cases ! i) ! k"
    using assms by (intro nth_concat_const) (auto simp: Let_def)
  also have "\<dots> = (cases ! i,
            case_display_name i (cases ! i) @ '' ['' @ show_nat (k + 1) @ ''/''
              @ show_nat (nat repeat) @ '']'',
            Some (case_display_name i (cases ! i)))"
    using assms by (simp add: nth_enumerate_eq Let_def show_int_nat)
  finally show ?thesis using b by simp
qed

lemma unit_results_names:
  assumes "unit_runs rt ds task repeat = map Inr (unit_results rt ds task repeat)"
  shows "map (\<lambda>u. (result_name u, result_sourceCaseName u)) (unit_results rt ds task repeat)
           = map snd (buildTasksToRun (ds_cases ds) repeat)"
proof (rule nth_equalityI)
  let ?units = "buildTasksToRun (ds_cases ds) repeat"
  let ?results = "unit_results rt ds task repeat"
  have "length ?results = length (map Inr ?results :: (thrown + ('a, 'b, 'c) unit_result) list)"
    by simp
  also have "\<dots> = length ?units" by (simp only: assms[symmetric] length_unit_runs)
  finally have len: "length ?results = length ?units" .
  then show "length (map (\<lambda>u. (result_name u, result_sourceCaseName u)) ?results)
               = length (map snd ?units)"
    by simp
  fix j assume "j < length (map (\<lambda>u. (result_name u, result_sourceCaseName u)) ?results)"
  with len have j: "j < length ?units" and j': "j < length ?results" by simp_all
  obtain c reportName sourceName where n: "?units ! j = (c, reportName, sourceName)"
    by (cases "?units ! j") auto
  have "unit_runs rt ds task repeat ! j = Inr (?results ! j)"
    using j' by (simp only: assms nth_map)
  with unit_runs_nth[OF j n]
  have "runTaskAndEvaluators rt j (ds_evaluators ds) task c reportName sourceName = Inr (?results ! j)"
    by simp
  from result_names_run[OF this] n j j'
  show "map (\<lambda>u. (result_name u, result_sourceCaseName u)) ?results ! j = map snd ?units ! j"
    by simp
qed

lemma set_cases_of: "rc \<in> set (cases_of results) \<longleftrightarrow> CaseResult rc \<in> set results"
  by (induction results) (auto simp: cases_of_def split: unit_result.splits)

lemma set_failures_of: "rf \<in> set (failures_of results) \<longleftrightarrow> FailureResult rf \<in> set results"
  by (induction results) (auto simp: failures_of_def split: unit_result.splits)

lemma sources_of_units:
  assumes "unit_runs rt ds task repeat = map Inr (unit_results rt ds task repeat)"
    and "u \<in> set (unit_results rt ds task repeat)"
  shows "\<exists>unit \<in> set (buildTasksToRun (ds_cases ds) repeat).
           result_sourceCaseName u = snd (snd unit) \<and> result_name u = fst (snd unit)"
proof -
  from assms(2) have "(result_name u, result_sourceCaseName u)
      \<in> set (map (\<lambda>u. (result_name u, result_sourceCaseName u)) (unit_results rt ds task repeat))"
    by (simp add: image_iff, blast)
  then have "(result_name u, result_sourceCaseName u) \<in> set (map snd (buildTasksToRun (ds_cases ds) repeat))"
    by (simp only: unit_results_names[OF assms(1)])
  then show ?thesis by (auto simp: image_iff) (metis fst_conv snd_conv)
qed

lemma units_once_shape:
  assumes "unit \<in> set (buildTasksToRun cases 1)"
  shows "\<exists>i < length cases. unit = (cases ! i, case_display_name i (cases ! i), None)"
proof -
  from assms obtain i c where "(i, c) \<in> set (enumerate 0 cases)"
    and "unit = (c, case_display_name i c, None)"
    by (auto simp: buildTasksToRun_once)
  then show ?thesis by (auto simp: in_set_enumerate_eq)
qed

lemma units_repeat_shape:
  assumes "1 < repeat" and "unit \<in> set (buildTasksToRun cases repeat)"
  shows "\<exists>i < length cases. \<exists>k < nat repeat.
           unit = (cases ! i,
                   case_display_name i (cases ! i) @ '' ['' @ show_nat (k + 1) @ ''/''
                     @ show_nat (nat repeat) @ '']'',
                   Some (case_display_name i (cases ! i)))"
proof -
  from assms obtain i c k where "(i, c) \<in> set (enumerate 0 cases)" and "k < nat repeat"
    and "unit = (c, case_display_name i c @ '' ['' @ show_nat (k + 1) @ ''/'' @ show_int repeat @ '']'',
                 Some (case_display_name i c))"
    by (auto simp: buildTasksToRun_def Let_def)
  with assms(1) show ?thesis by (auto simp: in_set_enumerate_eq show_int_nat)
qed

section \<open>Name deduplication: auxiliary facts\<close>

lemma find_suffix_post:
  "suffix \<le> find_suffix seenNames name suffix
   \<and> name @ ''_'' @ show_nat (find_suffix seenNames name suffix) \<notin> set seenNames
   \<and> (\<forall>j. suffix \<le> j \<and> j < find_suffix seenNames name suffix
          \<longrightarrow> name @ ''_'' @ show_nat j \<in> set seenNames)"
proof (induction seenNames name suffix rule: find_suffix.induct)
  case (1 seenNames name suffix)
  show ?case
  proof (cases "name @ ''_'' @ show_nat suffix \<in> set seenNames")
    case True
    then have eq: "find_suffix seenNames name suffix = find_suffix seenNames name (Suc suffix)"
      by (subst find_suffix.simps) simp
    from "1.IH"[OF True] have ih:
      "Suc suffix \<le> find_suffix seenNames name (Suc suffix)"
      "name @ ''_'' @ show_nat (find_suffix seenNames name (Suc suffix)) \<notin> set seenNames"
      "\<forall>j. Suc suffix \<le> j \<and> j < find_suffix seenNames name (Suc suffix)
          \<longrightarrow> name @ ''_'' @ show_nat j \<in> set seenNames"
      by blast+
    have "name @ ''_'' @ show_nat j \<in> set seenNames"
      if "suffix \<le> j" "j < find_suffix seenNames name (Suc suffix)" for j
    proof (cases "j = suffix")
      case True
      with \<open>name @ ''_'' @ show_nat suffix \<in> set seenNames\<close> show ?thesis by simp
    next
      case False
      with that have "Suc suffix \<le> j" by simp
      with ih(3) that(2) show ?thesis by blast
    qed
    with ih(1,2) show ?thesis unfolding eq by auto
  next
    case False
    then have "find_suffix seenNames name suffix = suffix"
      by (subst find_suffix.simps) simp
    with False show ?thesis by auto
  qed
qed

lemma dedup_name_fresh: "dedup_name seenNames name \<notin> set seenNames"
  using find_suffix_post[of 2 seenNames name] by (simp add: dedup_name_def)

lemma record_keys_update: "record_keys (AList.update k v r) = insert k (record_keys r)"
  by (simp add: record_keys_def dom_update)

lemma record_keys_set_prop:
  "record_keys (set_prop k v r) = (if k = ''__proto__'' then record_keys r else insert k (record_keys r))"
  by (simp add: set_prop_def record_keys_update)

lemma map_of_set_prop:
  "map_of (set_prop k v r) k' = (if k' = k \<and> k \<noteq> ''__proto__'' then Some v else map_of r k')"
  by (simp add: set_prop_def update_conv')

lemma set_Set_add [simp]: "set (Set_add x s) = insert x (set s)"
  by (auto simp: Set_add_def)

lemma Set_add_fresh: "x \<notin> set s \<Longrightarrow> Set_add x s = s @ [x]"
  by (simp add: Set_add_def)

lemma seen_group_step:
  "g_seenNames (group_step er st) = Set_add (dedup_name (g_seenNames st) (er_name er)) (g_seenNames st)"
  by (cases "er_value er") (simp_all add: group_step_def Let_def)

lemma group_step_keys:
  "record_keys (g_assertions (group_step er st)) =
     record_keys (g_assertions st)
       \<union> (if typeof_boolean (er_value er) \<and> dedup_name (g_seenNames st) (er_name er) \<noteq> ''__proto__''
          then {dedup_name (g_seenNames st) (er_name er)} else {})"
  "record_keys (g_scores (group_step er st)) =
     record_keys (g_scores st)
       \<union> (if typeof_number (er_value er) \<and> dedup_name (g_seenNames st) (er_name er) \<noteq> ''__proto__''
          then {dedup_name (g_seenNames st) (er_name er)} else {})"
  "record_keys (g_labels (group_step er st)) =
     record_keys (g_labels st)
       \<union> (if typeof_string (er_value er) \<and> dedup_name (g_seenNames st) (er_name er) \<noteq> ''__proto__''
          then {dedup_name (g_seenNames st) (er_name er)} else {})"
  by (cases "er_value er";
      simp add: group_step_def Let_def record_keys_set_prop typeof_boolean_def typeof_number_def
        typeof_string_def)+

lemma group_step_keys_apart:
  assumes "keys_apart st"
  shows "keys_apart (group_step er st)"
proof -
  let ?name = "dedup_name (g_seenNames st) (er_name er)"
  have fresh: "?name \<notin> set (g_seenNames st)" by (rule dedup_name_fresh)
  from assms have sub: "record_keys (g_assertions st) \<subseteq> set (g_seenNames st)"
    "record_keys (g_scores st) \<subseteq> set (g_seenNames st)"
    "record_keys (g_labels st) \<subseteq> set (g_seenNames st)"
    and dis: "record_keys (g_assertions st) \<inter> record_keys (g_scores st) = {}"
    "record_keys (g_assertions st) \<inter> record_keys (g_labels st) = {}"
    "record_keys (g_scores st) \<inter> record_keys (g_labels st) = {}"
    by (simp_all add: keys_apart_def)
  from fresh sub have out: "?name \<notin> record_keys (g_assertions st)"
    "?name \<notin> record_keys (g_scores st)" "?name \<notin> record_keys (g_labels st)"
    by blast+
  have one: "\<not> (typeof_boolean v \<and> typeof_number v)" "\<not> (typeof_boolean v \<and> typeof_string v)"
    "\<not> (typeof_number v \<and> typeof_string v)" for v
    by (cases v; simp add: typeof_boolean_def typeof_number_def typeof_string_def)+
  show ?thesis
    unfolding keys_apart_def group_step_keys seen_group_step set_Set_add
  proof (intro conjI)
    show "record_keys (g_assertions st)
            \<union> (if typeof_boolean (er_value er) \<and> ?name \<noteq> ''__proto__'' then {?name} else {})
          \<subseteq> insert ?name (set (g_seenNames st))"
      using sub(1) by auto
    show "record_keys (g_scores st)
            \<union> (if typeof_number (er_value er) \<and> ?name \<noteq> ''__proto__'' then {?name} else {})
          \<subseteq> insert ?name (set (g_seenNames st))"
      using sub(2) by auto
    show "record_keys (g_labels st)
            \<union> (if typeof_string (er_value er) \<and> ?name \<noteq> ''__proto__'' then {?name} else {})
          \<subseteq> insert ?name (set (g_seenNames st))"
      using sub(3) by auto
    show "(record_keys (g_assertions st)
            \<union> (if typeof_boolean (er_value er) \<and> ?name \<noteq> ''__proto__'' then {?name} else {}))
          \<inter> (record_keys (g_scores st)
            \<union> (if typeof_number (er_value er) \<and> ?name \<noteq> ''__proto__'' then {?name} else {})) = {}"
      using dis(1) out one(1)[of "er_value er"] by auto
    show "(record_keys (g_assertions st)
            \<union> (if typeof_boolean (er_value er) \<and> ?name \<noteq> ''__proto__'' then {?name} else {}))
          \<inter> (record_keys (g_labels st)
            \<union> (if typeof_string (er_value er) \<and> ?name \<noteq> ''__proto__'' then {?name} else {})) = {}"
      using dis(2) out one(2)[of "er_value er"] by auto
    show "(record_keys (g_scores st)
            \<union> (if typeof_number (er_value er) \<and> ?name \<noteq> ''__proto__'' then {?name} else {}))
          \<inter> (record_keys (g_labels st)
            \<union> (if typeof_string (er_value er) \<and> ?name \<noteq> ''__proto__'' then {?name} else {})) = {}"
      using dis(3) out one(3)[of "er_value er"] by auto
  qed
qed

lemma fold_group_step_keys_apart:
  "keys_apart st \<Longrightarrow> keys_apart (fold group_step results st)"
  by (induction results arbitrary: st) (simp_all add: group_step_keys_apart)

lemma groupEvaluatorOutputsByType_keys_apart: "keys_apart (groupEvaluatorOutputsByType results)"
  unfolding groupEvaluatorOutputsByType_def
  by (rule fold_group_step_keys_apart) (simp add: keys_apart_def record_keys_def)

lemma check_names:
  "dedup_name [] ''check'' = ''check''"
  "dedup_name [''check''] ''check'' = ''check_2''"
  "dedup_name [''check'', ''check_2''] ''check'' = ''check_3''"
  by code_simp+

lemma group_step_files:
  "dedup_name (g_seenNames st) (er_name er) \<noteq> ''__proto__'' \<Longrightarrow>
   filed (group_step er st) (dedup_name (g_seenNames st) (er_name er)) er"
  by (cases "er_value er") (simp_all add: filed_def group_step_def Let_def map_of_set_prop)

lemma group_step_keeps_filed:
  "name \<noteq> dedup_name (g_seenNames st) (er_name er) \<Longrightarrow> filed st name er0 \<Longrightarrow>
   filed (group_step er st) name er0"
  by (cases "er_value er"; cases "er_value er0")
     (simp_all add: filed_def group_step_def Let_def map_of_set_prop)

lemma length_assigned_names [simp]: "length (assigned_names seenNames names) = length names"
  by (induction names arbitrary: seenNames) simp_all

lemma assigned_names_snoc:
  "assigned_names seenNames (names @ [name]) =
     assigned_names seenNames names
       @ [dedup_name (seenNames @ assigned_names seenNames names) name]"
proof (induction names arbitrary: seenNames)
  case Nil
  show ?case by simp
next
  case (Cons n names)
  have "Set_add (dedup_name seenNames n) seenNames = seenNames @ [dedup_name seenNames n]"
    by (rule Set_add_fresh) (rule dedup_name_fresh)
  with Cons[of "seenNames @ [dedup_name seenNames n]"] show ?case by simp
qed

lemma distinct_assigned_names:
  "distinct seenNames \<Longrightarrow> distinct (seenNames @ assigned_names seenNames names)"
proof (induction names arbitrary: seenNames)
  case Nil
  then show ?case by simp
next
  case (Cons n names)
  have f: "dedup_name seenNames n \<notin> set seenNames" by (rule dedup_name_fresh)
  then have s: "Set_add (dedup_name seenNames n) seenNames = seenNames @ [dedup_name seenNames n]"
    by (rule Set_add_fresh)
  from Cons.prems f have "distinct (seenNames @ [dedup_name seenNames n])" by simp
  from Cons.IH[OF this] s show ?case by simp
qed

lemma names_of_type_snoc:
  "length names = length results \<Longrightarrow>
   names_of_type is_type (names @ [name]) (results @ [er]) =
     names_of_type is_type names results
       \<union> (if is_type (er_value er) \<and> name \<noteq> ''__proto__'' then {name} else {})"
  by (simp add: names_of_type_def)

text \<open>The whole scan: what \<open>groupEvaluatorOutputsByType\<close> holds after any list of results.\<close>

lemma group_scan:
  "g_seenNames (groupEvaluatorOutputsByType results) = assigned_names [] (map er_name results)
   \<and> (\<forall>p \<in> set (zip (assigned_names [] (map er_name results)) results).
         fst p \<noteq> ''__proto__'' \<longrightarrow> filed (groupEvaluatorOutputsByType results) (fst p) (snd p))
   \<and> record_keys (g_assertions (groupEvaluatorOutputsByType results))
        = names_of_type typeof_boolean (assigned_names [] (map er_name results)) results
   \<and> record_keys (g_scores (groupEvaluatorOutputsByType results))
        = names_of_type typeof_number (assigned_names [] (map er_name results)) results
   \<and> record_keys (g_labels (groupEvaluatorOutputsByType results))
        = names_of_type typeof_string (assigned_names [] (map er_name results)) results"
proof (induction results rule: rev_induct)
  case Nil
  show ?case
    by (simp add: groupEvaluatorOutputsByType_def names_of_type_def record_keys_def)
next
  case (snoc r rs)
  let ?g = "groupEvaluatorOutputsByType rs"
  let ?names = "assigned_names [] (map er_name rs)"
  let ?n = "dedup_name ?names (er_name r)"
  from snoc have seen: "g_seenNames ?g = ?names"
    and files: "\<And>p. p \<in> set (zip ?names rs) \<Longrightarrow> fst p \<noteq> ''__proto__'' \<Longrightarrow> filed ?g (fst p) (snd p)"
    and keys: "record_keys (g_assertions ?g) = names_of_type typeof_boolean ?names rs"
      "record_keys (g_scores ?g) = names_of_type typeof_number ?names rs"
      "record_keys (g_labels ?g) = names_of_type typeof_string ?names rs"
    by blast+
  have g': "groupEvaluatorOutputsByType (rs @ [r]) = group_step r ?g"
    by (simp add: groupEvaluatorOutputsByType_def)
  have names': "assigned_names [] (map er_name (rs @ [r])) = ?names @ [?n]"
    using assigned_names_snoc[of "[]" "map er_name rs" "er_name r"] by simp
  have fresh: "?n \<notin> set ?names" by (rule dedup_name_fresh)
  have len: "length ?names = length rs" by simp
  have z: "zip (?names @ [?n]) (rs @ [r]) = zip ?names rs @ [(?n, r)]"
    using len by simp
  have A: "g_seenNames (group_step r ?g) = ?names @ [?n]"
    using fresh by (simp add: seen_group_step seen Set_add_fresh)
  have B: "\<forall>p \<in> set (zip (?names @ [?n]) (rs @ [r])).
             fst p \<noteq> ''__proto__'' \<longrightarrow> filed (group_step r ?g) (fst p) (snd p)"
  proof (intro ballI impI)
    fix p assume p: "p \<in> set (zip (?names @ [?n]) (rs @ [r]))" and np: "fst p \<noteq> ''__proto__''"
    from p z have "p \<in> set (zip ?names rs) \<or> p = (?n, r)" by auto
    then show "filed (group_step r ?g) (fst p) (snd p)"
    proof
      assume old: "p \<in> set (zip ?names rs)"
      have "fst p \<in> set ?names"
        using old set_zip_leftD[of "fst p" "snd p" ?names rs] by simp
      with fresh have "fst p \<noteq> dedup_name (g_seenNames ?g) (er_name r)" by (auto simp: seen)
      from group_step_keeps_filed[OF this files[OF old np]] show ?thesis .
    next
      assume new: "p = (?n, r)"
      with np have "dedup_name (g_seenNames ?g) (er_name r) \<noteq> ''__proto__''" by (simp add: seen)
      from group_step_files[OF this] new show ?thesis by (simp add: seen)
    qed
  qed
  have C: "record_keys (g_assertions (group_step r ?g))
             = names_of_type typeof_boolean (?names @ [?n]) (rs @ [r])"
    "record_keys (g_scores (group_step r ?g))
             = names_of_type typeof_number (?names @ [?n]) (rs @ [r])"
    "record_keys (g_labels (group_step r ?g))
             = names_of_type typeof_string (?names @ [?n]) (rs @ [r])"
    by (simp_all only: group_step_keys names_of_type_snoc[OF len] keys seen)
  from A B C show ?case unfolding g' names' by blast
qed

lemma report_case_grouped:
  assumes "runTaskAndEvaluators rt j evs task c reportName sourceName = Inr (CaseResult rc)"
  shows "\<exists>outputs. rc_assertions rc = g_assertions (groupEvaluatorOutputsByType outputs)
           \<and> rc_scores rc = g_scores (groupEvaluatorOutputsByType outputs)
           \<and> rc_labels rc = g_labels (groupEvaluatorOutputsByType outputs)"
  using assms
  by (auto simp: runTaskAndEvaluators_def unit_failure_def Let_def
           split: sum.splits prod.splits if_splits)

section \<open>Aggregation: auxiliary facts\<close>




text \<open>Names that are not inherited behave as own keys.\<close>

lemma inherited_proto: "inherited ''__proto__''"
  by (simp add: inherited_def Object_prototype_names_def)

lemma plain_not_proto: "\<not> inherited k \<Longrightarrow> k \<noteq> ''__proto__''"
  using inherited_proto by blast

lemma set_prop_plain: "\<not> inherited k \<Longrightarrow> set_prop k v obj = AList.update k v obj"
  by (simp add: set_prop_def plain_not_proto)

lemma get_or_zero_plain: "\<not> inherited k \<Longrightarrow> get_or_zero r k = label_freq r k"
  by (simp add: get_or_zero_def label_freq_def split: option.splits)

lemma has_prop_plain: "\<not> inherited k \<Longrightarrow> has_prop obj k \<longleftrightarrow> map_of obj k \<noteq> None"
  by (simp add: has_prop_def)

lemma js_add_assoc: "js_add (js_add a b) c = js_add a (js_add b c)"
  by (cases a; cases b; cases c) simp_all

lemma js_add_zero [simp]: "js_add (Num 0) x = x" "js_add x (Num 0) = x"
  by (cases x; simp)+

lemma foldl_js_add: "foldl js_add z xs = js_add z (num_sum xs)"
  unfolding num_sum_def
proof (induction xs arbitrary: z)
  case Nil
  show ?case by simp
next
  case (Cons x xs)
  from Cons[of "js_add z x"] Cons[of x] show ?case by (simp add: js_add_assoc)
qed

lemma num_sum_Nil [simp]: "num_sum [] = Num 0"
  by (simp add: num_sum_def)

lemma num_sum_Cons [simp]: "num_sum (x # xs) = js_add x (num_sum xs)"
  using foldl_js_add[of x xs] by (simp add: num_sum_def)

lemma num_sum_numbers:
  "(\<And>x. x \<in> set xs \<Longrightarrow> \<exists>r. x = Num r) \<Longrightarrow> num_sum xs = Num (sum_list (map the_number xs))"
proof (induction xs)
  case Nil
  show ?case by simp
next
  case (Cons x xs)
  from Cons.prems obtain r where "x = Num r" by auto
  with Cons show ?case by simp
qed

lemma label_freq_update:
  "label_freq (AList.update k v al) k' = (if k' = k then v else label_freq al k')"
  by (simp add: label_freq_def update_conv')

lemma update_fresh: "k \<notin> fst ` set al \<Longrightarrow> AList.update k v al = al @ [(k, v)]"
  by (induction al) auto

lemma sum_list_update:
  fixes al :: "num Record"
  assumes "distinct (map fst al)"
  shows "sum_list (map (\<lambda>p. the_number (snd p)) (AList.update k x al))
           = sum_list (map (\<lambda>p. the_number (snd p)) al) - the_number (label_freq al k) + the_number x"
  using assms
proof (induction al)
  case Nil
  then show ?case by (simp add: label_freq_def)
next
  case (Cons p al)
  show ?case
  proof (cases "fst p = k")
    case True
    with Cons.prems have "map_of al k = None" by (auto simp: map_of_eq_None_iff)
    with True show ?thesis by (cases p) (simp add: label_freq_def)
  next
    case False
    with Cons show ?thesis by (cases p) (simp add: label_freq_def)
  qed
qed

lemma fold_set_prop_fresh:
  assumes "distinct (map fst xs)" and "fst ` set xs \<inter> fst ` set acc = {}"
    and "''__proto__'' \<notin> fst ` set xs"
  shows "fold (\<lambda>(k, v) acc. set_prop k (f k v) acc) xs acc
           = acc @ map (\<lambda>(k, v). (k, f k v)) xs"
  using assms
proof (induction xs arbitrary: acc)
  case Nil
  then show ?case by simp
next
  case (Cons p xs)
  obtain k v where p: "p = (k, v)" by (cases p)
  from Cons.prems p have fresh: "k \<notin> fst ` set acc" and np: "k \<noteq> ''__proto__''" by auto
  have step: "set_prop k (f k v) acc = acc @ [(k, f k v)]"
    using fresh np by (simp add: set_prop_def update_fresh)
  have "fst ` set xs \<inter> fst ` set (acc @ [(k, f k v)]) = {}"
    using Cons.prems p by auto
  with Cons.IH[of "acc @ [(k, f k v)]"] Cons.prems(1,3)
  have "fold (\<lambda>(k, v) acc. set_prop k (f k v) acc) xs (acc @ [(k, f k v)])
          = (acc @ [(k, f k v)]) @ map (\<lambda>(k, v). (k, f k v)) xs"
    by simp
  with step p show ?case by simp
qed

lemma fold_set_prop_map:
  "distinct (map fst xs) \<Longrightarrow> ''__proto__'' \<notin> fst ` set xs \<Longrightarrow>
   fold (\<lambda>(k, v) acc. set_prop k (f k v) acc) xs [] = map (\<lambda>(k, v). (k, f k v)) xs"
  using fold_set_prop_fresh[of xs "[]" f] by simp

lemma map_of_map_values:
  "map_of (map (\<lambda>(k, v). (k, f k v)) xs) k = map_option (f k) (map_of xs k)"
  by (induction xs) auto

text \<open>The label loop on entries whose name and value are not inherited.\<close>

lemma label_step_plain:
  assumes "\<not> inherited k" and "\<not> inherited (er_value r)"
  shows "label_step (k, r) (lc, ls) =
           (AList.update k (js_add (label_freq lc k) (Num 1)) lc,
            AList.update k
              (AList.update (er_value r)
                 (js_add (label_freq (case map_of ls k of None \<Rightarrow> [] | Some d \<Rightarrow> d) (er_value r)) (Num 1))
                 (case map_of ls k of None \<Rightarrow> [] | Some d \<Rightarrow> d))
              (if map_of ls k = None then AList.update k [] ls else ls))"
  using assms
  by (cases "map_of ls k")
     (simp_all add: label_step_def Let_def set_prop_plain get_or_zero_plain has_prop_plain update_conv')

lemma tally_ok_step:
  assumes "tally_ok es acc" and "\<not> inherited (fst e)" and "\<not> inherited (er_value (snd e))"
  shows "tally_ok (es @ [e]) (label_step e acc)"
proof -
  obtain k r where e: "e = (k, r)" by (cases e)
  obtain lc ls where acc: "acc = (lc, ls)" by (cases acc)
  let ?v = "er_value r"
  let ?ls1 = "if map_of ls k = None then AList.update k [] ls else ls"
  let ?inner = "case map_of ls k of None \<Rightarrow> [] | Some d \<Rightarrow> d"
  let ?inner' = "AList.update ?v (js_add (label_freq ?inner ?v) (Num 1)) ?inner"
  have step: "label_step e acc = (AList.update k (js_add (label_freq lc k) (Num 1)) lc, AList.update k ?inner' ?ls1)"
    using assms(2,3) by (simp add: e acc label_step_plain)
  from assms(1) acc have d: "distinct (map fst ls)"
    and c: "\<And>k. map_of lc k = (if occ k es = 0 then None else Some (Num (of_nat (occ k es))))"
    and n: "\<And>k. (map_of ls k = None) = (occ k es = 0)"
    and s: "\<And>k d. map_of ls k = Some d \<Longrightarrow>
            distinct (map fst d)
            \<and> (\<forall>v. map_of d v = (if occv k v es = 0 then None else Some (Num (of_nat (occv k v es)))))
            \<and> sum_list (map (\<lambda>p. the_number (snd p)) d) = of_nat (occ k es)"
    by (auto simp: tally_ok_def)
  have cf: "label_freq lc k = Num (of_nat (occ k es))"
    by (simp add: label_freq_def c)
  have inner: "distinct (map fst ?inner)
            \<and> (\<forall>v. map_of ?inner v = (if occv k v es = 0 then None else Some (Num (of_nat (occv k v es)))))
            \<and> sum_list (map (\<lambda>p. the_number (snd p)) ?inner) = of_nat (occ k es)"
  proof (cases "map_of ls k")
    case None
    with n have z: "occ k es = 0" by simp
    then have "\<And>v. occv k v es = 0"
      by (auto simp: occ_def occv_def filter_empty_conv)
    with None z show ?thesis by simp
  next
    case (Some d0)
    with s[OF Some] show ?thesis by simp
  qed
  then have inf: "label_freq ?inner ?v = Num (of_nat (occv k ?v es))"
    by (simp add: label_freq_def)
  have occ_snoc: "\<And>k'. occ k' (es @ [e]) = (if k' = k then occ k' es + 1 else occ k' es)"
    by (auto simp: occ_def e)
  have occv_snoc: "\<And>k' v. occv k' v (es @ [e])
      = (if k' = k \<and> v = ?v then occv k' v es + 1 else occv k' v es)"
    by (auto simp: occv_def e)
  have mo: "\<And>k'. map_of (AList.update k ?inner' ?ls1) k'
      = (if k' = k then Some ?inner' else map_of ls k')"
    by (simp add: update_conv')
  have d': "distinct (map fst (AList.update k ?inner' ?ls1))"
    using d by (simp add: distinct_update)
  have inner': "distinct (map fst ?inner')
            \<and> (\<forall>v. map_of ?inner' v = (if occv k v (es @ [e]) = 0 then None
                                       else Some (Num (of_nat (occv k v (es @ [e]))))))
            \<and> sum_list (map (\<lambda>p. the_number (snd p)) ?inner') = of_nat (occ k (es @ [e]))"
  proof (intro conjI allI)
    show "distinct (map fst ?inner')" using inner by (simp add: distinct_update)
    show "map_of ?inner' v = (if occv k v (es @ [e]) = 0 then None
                              else Some (Num (of_nat (occv k v (es @ [e])))))" for v
      using inner by (simp add: update_conv' occv_snoc inf)
    have "sum_list (map (\<lambda>p. the_number (snd p)) ?inner')
            = sum_list (map (\<lambda>p. the_number (snd p)) ?inner) - the_number (label_freq ?inner ?v)
              + the_number (js_add (label_freq ?inner ?v) (Num 1))"
      using inner by (intro sum_list_update) simp
    then show "sum_list (map (\<lambda>p. the_number (snd p)) ?inner') = of_nat (occ k (es @ [e]))"
      using inner by (simp add: occ_snoc inf)
  qed
  show ?thesis
    unfolding tally_ok_def step fst_conv snd_conv
  proof (intro conjI allI impI)
    show "distinct (map fst (AList.update k ?inner' ?ls1))" by (rule d')
    show "map_of (AList.update k (js_add (label_freq lc k) (Num 1)) lc) k'
            = (if occ k' (es @ [e]) = 0 then None else Some (Num (of_nat (occ k' (es @ [e])))))" for k'
      by (simp add: update_conv' c cf occ_snoc)
    show "(map_of (AList.update k ?inner' ?ls1) k' = None) = (occ k' (es @ [e]) = 0)" for k'
      by (simp only: mo) (simp add: occ_snoc n)
  next
    fix k' d
    assume a: "map_of (AList.update k ?inner' ?ls1) k' = Some d"
    have "distinct (map fst d)
            \<and> (\<forall>v. map_of d v = (if occv k' v (es @ [e]) = 0 then None
                                  else Some (Num (of_nat (occv k' v (es @ [e]))))))
            \<and> sum_list (map (\<lambda>p. the_number (snd p)) d) = of_nat (occ k' (es @ [e]))"
    proof (cases "k' = k")
      case True
      with a mo have "d = ?inner'" by simp
      with inner' True show ?thesis by simp
    next
      case False
      with a mo have "map_of ls k' = Some d" by simp
      from s[OF this] False show ?thesis by (simp add: occ_snoc occv_snoc)
    qed
    then show "distinct (map fst d)"
      "map_of d v = (if occv k' v (es @ [e]) = 0 then None
                     else Some (Num (of_nat (occv k' v (es @ [e])))))"
      "sum_list (map (\<lambda>p. the_number (snd p)) d) = of_nat (occ k' (es @ [e]))" for v
      by blast+
  qed
qed

lemma tally_ok_fold:
  "\<forall>e \<in> set es. \<not> inherited (fst e) \<and> \<not> inherited (er_value (snd e)) \<Longrightarrow>
   tally_ok es (fold label_step es ([], []))"
proof (induction es rule: rev_induct)
  case Nil
  show ?case by (simp add: tally_ok_def occ_def)
next
  case (snoc e es)
  then show ?case by (simp add: tally_ok_step)
qed

lemma fold_fold_concat:
  "fold (\<lambda>x acc. fold f (g x) acc) xs acc = fold f (concat (map g xs)) acc"
  by (induction xs arbitrary: acc) simp_all

lemma label_tally_concat:
  "label_tally cases = fold label_step (concat (map rc_labels cases)) ([], [])"
  by (simp add: label_tally_def fold_fold_concat)

lemma occ_distinct:
  "distinct (map fst al) \<Longrightarrow> occ k al = (if map_of al k \<noteq> None then 1 else 0)"
proof (induction al)
  case Nil
  then show ?case by (simp add: occ_def)
next
  case (Cons p al)
  then show ?case
    by (cases p) (auto simp: occ_def map_of_eq_None_iff filter_empty_conv image_iff)
qed

lemma occv_distinct:
  "distinct (map fst al) \<Longrightarrow>
   occv k v al = (if map_option er_value (map_of al k) = Some v then 1 else 0)"
proof (induction al)
  case Nil
  then show ?case by (simp add: occv_def)
next
  case (Cons p al)
  then show ?case
    by (cases p) (auto simp: occv_def map_of_eq_None_iff filter_empty_conv image_iff)
qed

lemma occ_concat: "occ k (concat xss) = sum_list (map (occ k) xss)"
  by (induction xss) (simp_all add: occ_def)

lemma occv_concat: "occv k v (concat xss) = sum_list (map (occv k v) xss)"
  by (induction xss) (simp_all add: occv_def)

lemma sum_list_indicator: "sum_list (map (\<lambda>x. if P x then 1 else 0) xs) = length (filter P xs)"
  by (induction xs) simp_all

lemma occ_cases:
  assumes "\<forall>c \<in> set cases. distinct (map fst (rc_labels c))"
  shows "occ k (concat (map rc_labels cases)) = cases_with_label k cases"
proof -
  have "map (occ k) (map rc_labels cases)
          = map (\<lambda>c. if map_of (rc_labels c) k \<noteq> None then 1 else 0) cases"
    using assms by (simp add: occ_distinct)
  then show ?thesis
    by (simp only: occ_concat cases_with_label_def sum_list_indicator)
qed

lemma occv_cases:
  assumes "\<forall>c \<in> set cases. distinct (map fst (rc_labels c))"
  shows "occv k v (concat (map rc_labels cases)) = cases_with_label_value k v cases"
proof -
  have "map (occv k v) (map rc_labels cases)
          = map (\<lambda>c. if map_option er_value (map_of (rc_labels c) k) = Some v then 1 else 0) cases"
    using assms by (simp add: occv_distinct)
  then show ?thesis
    by (simp only: occv_concat cases_with_label_value_def sum_list_indicator)
qed

lemma tally_okD:
  assumes "tally_ok es (lc, ls)"
  shows "distinct (map fst ls)"
    and "map_of lc k = (if occ k es = 0 then None else Some (Num (of_nat (occ k es))))"
    and "(map_of ls k = None) = (occ k es = 0)"
    and "map_of ls k = Some d \<Longrightarrow> distinct (map fst d)"
    and "map_of ls k = Some d \<Longrightarrow>
           map_of d v = (if occv k v es = 0 then None else Some (Num (of_nat (occv k v es))))"
    and "map_of ls k = Some d \<Longrightarrow> sum_list (map (\<lambda>p. the_number (snd p)) d) = of_nat (occ k es)"
  using assms unfolding tally_ok_def fst_conv snd_conv by blast+

lemma occ_pos_entry: "occ k es \<noteq> 0 \<Longrightarrow> \<exists>e \<in> set es. fst e = k"
  by (auto simp: occ_def filter_empty_conv)

lemma occv_pos_entry: "occv k v es \<noteq> 0 \<Longrightarrow> \<exists>e \<in> set es. fst e = k \<and> er_value (snd e) = v"
  by (auto simp: occv_def filter_empty_conv)

lemma label_distribution_closed:
  assumes ok: "tally_ok es (lc, ls)" and k: "map_of ls k = Some d"
    and plain: "\<forall>e \<in> set es. \<not> inherited (fst e) \<and> \<not> inherited (er_value (snd e))"
  shows "map_of (label_distribution (lc, ls)) k
           = Some (map (\<lambda>(l, c). (l, js_div c (Num (of_nat (occ k es))))) d)"
proof -
  let ?f = "\<lambda>k counts. fold (\<lambda>(label, count) d. set_prop label (js_div count (num_at lc k)) d) counts []"
  note dls = tally_okD(1)[OF ok] and c = tally_okD(2)[OF ok]
  note dd = tally_okD(4)[OF ok k]
  have keys: "''__proto__'' \<notin> fst ` set ls"
  proof
    assume "''__proto__'' \<in> fst ` set ls"
    then have "map_of ls ''__proto__'' \<noteq> None" by (simp add: map_of_eq_None_iff)
    with tally_okD(3)[OF ok, of "''__proto__''"] have "occ ''__proto__'' es \<noteq> 0" by simp
    from occ_pos_entry[OF this] plain inherited_proto show False by auto
  qed
  have vals: "''__proto__'' \<notin> fst ` set d"
  proof
    assume "''__proto__'' \<in> fst ` set d"
    then have "map_of d ''__proto__'' \<noteq> None" by (simp add: map_of_eq_None_iff)
    with tally_okD(5)[OF ok k, of "''__proto__''"] have "occv k ''__proto__'' es \<noteq> 0"
      by (auto split: if_splits)
    from occv_pos_entry[OF this] plain inherited_proto show False by auto
  qed
  from k tally_okD(3)[OF ok, of k] have pos: "occ k es \<noteq> 0" by simp
  then have na: "num_at lc k = Num (of_nat (occ k es))" by (simp add: num_at_def c)
  have "label_distribution (lc, ls) = fold (\<lambda>(k, counts) avgLabels. set_prop k (?f k counts) avgLabels) ls []"
    by (simp add: label_distribution_def)
  also have "\<dots> = map (\<lambda>(k, counts). (k, ?f k counts)) ls"
    using dls keys by (rule fold_set_prop_map)
  finally have "map_of (label_distribution (lc, ls)) k = map_option (?f k) (map_of ls k)"
    by (simp only: map_of_map_values)
  also have "\<dots> = Some (?f k d)" using k by simp
  also have "?f k d = map (\<lambda>(l, c). (l, js_div c (num_at lc k))) d"
    using dd vals by (rule fold_set_prop_map)
  finally show ?thesis by (simp add: na)
qed

lemma plain_labels_entries:
  "plain_labels cases \<Longrightarrow>
   \<forall>e \<in> set (concat (map rc_labels cases)). \<not> inherited (fst e) \<and> \<not> inherited (er_value (snd e))"
  by (auto simp: plain_labels_def)

lemma set_fold_Set_add: "set (fold Set_add xs acc) = set acc \<union> set xs"
  by (induction xs arbitrary: acc) (auto simp: Set_add_def)

lemma distinct_fold_Set_add: "distinct acc \<Longrightarrow> distinct (fold Set_add xs acc)"
  by (induction xs arbitrary: acc) (auto simp: Set_add_def)

lemma set_new_Set [simp]: "set (new_Set xs) = set xs"
  by (simp add: new_Set_def set_fold_Set_add)

lemma distinct_new_Set [simp]: "distinct (new_Set xs)"
  by (simp add: new_Set_def distinct_fold_Set_add)

lemma map_of_fold_set_prop_keys:
  assumes "k \<noteq> ''__proto__''"
  shows "map_of (fold (\<lambda>key acc. set_prop key (F key) acc) ks acc) k
           = (if k \<in> set ks then Some (F k) else map_of acc k)"
proof (induction ks arbitrary: acc)
  case Nil
  show ?case by simp
next
  case (Cons key ks)
  show ?case using assms by (simp add: Cons map_of_set_prop)
qed

text \<open>the inner accumulation of one distribution into combined\<close>

lemma accumulate_freqs:
  assumes "distinct (map fst freqs)" and "distinct (map fst combined)"
    and "\<forall>v \<in> fst ` set freqs. \<not> inherited v"
  shows "distinct (map fst (fold (\<lambda>(labelVal, freq) combined.
            set_prop labelVal (js_add (get_or_zero combined labelVal) freq) combined) freqs combined))
       \<and> (\<forall>v. label_freq (fold (\<lambda>(labelVal, freq) combined.
            set_prop labelVal (js_add (get_or_zero combined labelVal) freq) combined) freqs combined) v
            = js_add (label_freq combined v) (label_freq freqs v))
       \<and> fst ` set (fold (\<lambda>(labelVal, freq) combined.
            set_prop labelVal (js_add (get_or_zero combined labelVal) freq) combined) freqs combined)
            = fst ` set combined \<union> fst ` set freqs"
  using assms
proof (induction freqs arbitrary: combined)
  case Nil
  then show ?case by (simp add: label_freq_def)
next
  case (Cons p freqs)
  obtain l x where p: "p = (l, x)" by (cases p)
  from Cons.prems p have pl: "\<not> inherited l" by simp
  let ?c = "AList.update l (js_add (label_freq combined l) x) combined"
  have st: "set_prop l (js_add (get_or_zero combined l) x) combined = ?c"
    using pl by (simp add: set_prop_plain get_or_zero_plain)
  from Cons.prems p have d: "distinct (map fst freqs)" and nl: "map_of freqs l = None"
    and pv: "\<forall>v \<in> fst ` set freqs. \<not> inherited v"
    by (auto simp: map_of_eq_None_iff)
  have dc: "distinct (map fst ?c)" using Cons.prems(2) by (simp add: distinct_update)
  from Cons.IH[OF d dc pv] have ih1: "distinct (map fst (fold (\<lambda>(labelVal, freq) combined.
            set_prop labelVal (js_add (get_or_zero combined labelVal) freq) combined) freqs ?c))"
    and ih2: "\<And>v. label_freq (fold (\<lambda>(labelVal, freq) combined.
            set_prop labelVal (js_add (get_or_zero combined labelVal) freq) combined) freqs ?c) v
            = js_add (label_freq ?c v) (label_freq freqs v)"
    and ih3: "fst ` set (fold (\<lambda>(labelVal, freq) combined.
            set_prop labelVal (js_add (get_or_zero combined labelVal) freq) combined) freqs ?c)
            = fst ` set ?c \<union> fst ` set freqs"
    by blast+
  have "js_add (label_freq ?c v) (label_freq freqs v)
          = js_add (label_freq combined v) (label_freq (p # freqs) v)" for v
    using nl by (simp add: p label_freq_update) (simp add: label_freq_def)
  moreover have "fst ` set ?c = insert l (fst ` set combined)"
    using dom_update[of l _ combined] by (simp add: dom_update)
  ultimately show ?case using ih1 ih2 ih3 by (simp add: p st)
qed

lemma combine_fold:
  assumes "\<forall>a \<in> set aggregates. \<forall>freqs. map_of (agg_labels a) key = Some freqs \<longrightarrow>
             distinct (map fst freqs) \<and> (\<forall>v \<in> fst ` set freqs. \<not> inherited v)"
    and "distinct (map fst combined)" and "\<not> inherited key"
    and "\<forall>v \<in> fst ` set combined. \<not> inherited v"
  shows "distinct (map fst (fst (fold (combine_step key) aggregates (combined, count))))
       \<and> (\<forall>v. label_freq (fst (fold (combine_step key) aggregates (combined, count))) v
              = js_add (label_freq combined v)
                  (num_sum (map (\<lambda>a. label_mass a key v) (filter (has_label key) aggregates))))
       \<and> snd (fold (combine_step key) aggregates (combined, count))
              = count + length (filter (has_label key) aggregates)
       \<and> (\<forall>v \<in> fst ` set (fst (fold (combine_step key) aggregates (combined, count))). \<not> inherited v)"
  using assms
proof (induction aggregates arbitrary: combined count)
  case Nil
  then show ?case by simp
next
  case (Cons a aggregates)
  show ?case
  proof (cases "map_of (agg_labels a) key")
    case None
    then have "combine_step key a (combined, count) = (combined, count)"
      using Cons.prems(3) by (simp add: combine_step_def has_prop_plain)
    moreover have "\<not> has_label key a" using None by (simp add: has_label_def)
    ultimately show ?thesis using Cons.IH[of combined count] Cons.prems by simp
  next
    case (Some freqs)
    let ?c = "fold (\<lambda>(labelVal, freq) combined.
            set_prop labelVal (js_add (get_or_zero combined labelVal) freq) combined) freqs combined"
    have st: "combine_step key a (combined, count) = (?c, count + 1)"
      using Some Cons.prems(3) by (simp add: combine_step_def has_prop_plain)
    have h: "has_label key a" using Some by (simp add: has_label_def)
    from Cons.prems Some have df: "distinct (map fst freqs)"
      and pf: "\<forall>v \<in> fst ` set freqs. \<not> inherited v" by simp_all
    from accumulate_freqs[OF df Cons.prems(2) pf] have dc: "distinct (map fst ?c)"
      and gc: "\<And>v. label_freq ?c v = js_add (label_freq combined v) (label_freq freqs v)"
      and kc: "fst ` set ?c = fst ` set combined \<union> fst ` set freqs"
      by blast+
    have m: "\<And>v. label_mass a key v = label_freq freqs v"
      using Some by (simp add: label_mass_def)
    from Cons.prems(1) have rest: "\<forall>a \<in> set aggregates. \<forall>freqs.
        map_of (agg_labels a) key = Some freqs \<longrightarrow>
          distinct (map fst freqs) \<and> (\<forall>v \<in> fst ` set freqs. \<not> inherited v)" by simp
    from kc pf Cons.prems(4) have pc: "\<forall>v \<in> fst ` set ?c. \<not> inherited v" by blast
    from Cons.IH[OF rest dc Cons.prems(3) pc, of "count + 1"] st h gc m show ?thesis
      by (simp add: js_add_assoc)
  qed
qed

lemma foldl_plus: "foldl (\<lambda>a b. a + b) (z::rat) xs = z + sum_list xs"
  by (induction xs arbitrary: z) (simp_all add: add.assoc)

lemma map_filter_non_null: "List.map_filter agg_assertions aggregates = non_null_assertions aggregates"
  by (induction aggregates) (auto simp: List.map_filter_def non_null_assertions_def split: option.splits)

lemma label_freq_map_values:
  "n \<noteq> 0 \<Longrightarrow>
   label_freq (map (\<lambda>(k, v). (k, js_div v (Num n))) xs) k = js_div (label_freq xs k) (Num n)"
  by (simp add: label_freq_def map_of_map_values split: option.splits)

lemma combine_labels_lookup:
  assumes wf: "distinct (map fst (fst (fold (combine_step k) aggregates ([], 0))))"
    and pl: "\<forall>v \<in> fst ` set (fst (fold (combine_step k) aggregates ([], 0))). \<not> inherited v"
    and "a \<in> set aggregates" and "has_label k a" and "\<not> inherited k"
  shows "map_of (combine_labels aggregates) k =
           Some (map (\<lambda>(l, v). (l, js_div v (Num (of_nat (snd (fold (combine_step k) aggregates ([], 0)))))))
                     (fst (fold (combine_step k) aggregates ([], 0))))"
proof -
  let ?keys = "new_Set (concat (map (\<lambda>a. map fst (agg_labels a)) aggregates))"
  let ?F = "\<lambda>key. fold (\<lambda>(l, v) d. set_prop l (js_div v (Num (of_nat (snd (fold (combine_step key) aggregates ([], 0)))))) d)
                       (fst (fold (combine_step key) aggregates ([], 0))) []"
  have "combine_labels aggregates = fold (\<lambda>key avgLabels. set_prop key (?F key) avgLabels) ?keys []"
    by (simp add: combine_labels_def Let_def case_prod_beta)
  then have c: "map_of (combine_labels aggregates) k = (if k \<in> set ?keys then Some (?F k) else None)"
    using map_of_fold_set_prop_keys[OF plain_not_proto[OF assms(5)], of ?F ?keys "[]"] by simp
  from assms(3,4) have "k \<in> fst ` set (agg_labels a)"
    by (simp add: has_label_def map_of_eq_None_iff)
  with assms(3) have "k \<in> set ?keys" by auto
  with c have "map_of (combine_labels aggregates) k = Some (?F k)" by simp
  also have "?F k = map (\<lambda>(l, v). (l, js_div v (Num (of_nat (snd (fold (combine_step k) aggregates ([], 0)))))))
                     (fst (fold (combine_step k) aggregates ([], 0)))"
  proof (rule fold_set_prop_map[OF wf])
    show "''__proto__'' \<notin> fst ` set (fst (fold (combine_step k) aggregates ([], 0)))"
      using pl inherited_proto by blast
  qed
  finally show ?thesis .
qed

section \<open>Case groups: auxiliary facts\<close>




















section \<open>The concrete dataset: auxiliary facts\<close>

lemma demo_handlers_safe: "handlers_safe demo_dataset demo_task"
proof -
  have t: "printable_task demo_task"
    by (auto simp: printable_task_def demo_task_def split: if_splits)
  have e: "printable_evaluator (demo_evaluator n v)" for n v
    by (simp add: printable_evaluator_def demo_evaluator_def Evaluator_getDefaultEvaluationName_def)
  from t e show ?thesis
    by (simp add: handlers_safe_def demo_dataset_def)
qed

lemma demo_limit_accepts:
  "rt_pLimit demo_runtime (limit_argument (demo_options r None)) = None"
  by (simp add: demo_runtime_def limit_argument_def demo_options_def pLimit_check_def)

lemma demo_repeat: "repeat_of (demo_options (Some r) c) = r" "repeat_of (demo_options None c) = 1"
  by (simp_all add: repeat_of_def demo_options_def)

section \<open>Properties of the task-run helpers\<close>

text \<open>
  Outside a task-run scope (no store) \<open>setEvalAttribute\<close> and \<open>incrementEvalMetric\<close>
  return without recording anything.  Inside a scope, for a metric name that is no
  property name of \<open>Object.prototype\<close>: incrementing by zero a metric that has no recorded
  value leaves the store as it is (the key is not created), and every increment of a
  metric whose running value becomes a non-zero number stores that value under the key,
  creating or overwriting it, and leaves the other metrics and the attributes alone.
\<close>

theorem eval_helpers_scope_and_zero:
  "setEvalAttribute name val None = None
   \<and> incrementEvalMetric name amount None = None
   \<and> (\<not> inherited name \<and> map_of (tr_metrics taskRun) name = None \<longrightarrow>
        incrementEvalMetric name 0 (Some taskRun) = Some taskRun)
   \<and> (\<not> inherited name
        \<and> (case map_of (tr_metrics taskRun) name of None \<Rightarrow> Num 0 | Some v \<Rightarrow> v) = Num current
        \<and> current + amount \<noteq> 0 \<longrightarrow>
        (\<exists>taskRun'. incrementEvalMetric name amount (Some taskRun) = Some taskRun'
           \<and> map_of (tr_metrics taskRun') name = Some (Num (current + amount))
           \<and> (\<forall>k. k \<noteq> name \<longrightarrow> map_of (tr_metrics taskRun') k = map_of (tr_metrics taskRun) k)
           \<and> tr_attributes taskRun' = tr_attributes taskRun))"
proof (intro conjI impI)
  show "setEvalAttribute name val None = None" by (simp add: setEvalAttribute_def)
  show "incrementEvalMetric name amount None = None" by (simp add: incrementEvalMetric_def)
  show "incrementEvalMetric name 0 (Some taskRun) = Some taskRun"
    if "\<not> inherited name \<and> map_of (tr_metrics taskRun) name = None"
    using that by (simp add: incrementEvalMetric_def get_or_zero_def)
  show "\<exists>taskRun'. incrementEvalMetric name amount (Some taskRun) = Some taskRun'
           \<and> map_of (tr_metrics taskRun') name = Some (Num (current + amount))
           \<and> (\<forall>k. k \<noteq> name \<longrightarrow> map_of (tr_metrics taskRun') k = map_of (tr_metrics taskRun) k)
           \<and> tr_attributes taskRun' = tr_attributes taskRun"
    if h: "\<not> inherited name
        \<and> (case map_of (tr_metrics taskRun) name of None \<Rightarrow> Num 0 | Some v \<Rightarrow> v) = Num current
        \<and> current + amount \<noteq> 0"
  proof -
    from h have g: "get_or_zero (tr_metrics taskRun) name = Num current"
      by (simp add: get_or_zero_def split: option.splits)
    from h have "name \<noteq> ''__proto__''" by (simp add: plain_not_proto)
    with g h show ?thesis
      by (simp add: incrementEvalMetric_def Let_def map_of_set_prop)
  qed
qed

theorem eval_helpers_scope_and_zero_witness:
  "\<not> inherited ''zero''
   \<and> map_of (tr_metrics \<lparr>tr_attributes = [], tr_metrics = [(''tokens'', Num 100)]\<rparr>) ''zero'' = None
   \<and> incrementEvalMetric ''zero'' 0 (Some \<lparr>tr_attributes = [], tr_metrics = [(''tokens'', Num 100)]\<rparr>)
       = Some \<lparr>tr_attributes = [], tr_metrics = [(''tokens'', Num 100)]\<rparr>
   \<and> \<not> inherited ''tokens''
   \<and> (case map_of (tr_metrics \<lparr>tr_attributes = [], tr_metrics = [(''tokens'', Num 100)]\<rparr>) ''tokens'' of
          None \<Rightarrow> Num 0 | Some v \<Rightarrow> v) = Num 100
   \<and> (100::rat) + 50 \<noteq> 0
   \<and> (\<exists>taskRun'. incrementEvalMetric ''tokens'' 50
                      (Some \<lparr>tr_attributes = [], tr_metrics = [(''tokens'', Num 100)]\<rparr>) = Some taskRun'
          \<and> map_of (tr_metrics taskRun') ''tokens'' = Some (Num 150)
          \<and> tr_attributes taskRun' = [])"
proof -
  have p: "\<not> inherited ''zero''" "\<not> inherited ''tokens''"
    by (simp_all add: inherited_def Object_prototype_names_def)
  have z: "map_of (tr_metrics \<lparr>tr_attributes = [], tr_metrics = [(''tokens'', Num 100)]\<rparr>) ''zero'' = None"
    by simp
  have c: "(case map_of (tr_metrics \<lparr>tr_attributes = [], tr_metrics = [(''tokens'', Num 100)]\<rparr>) ''tokens'' of
          None \<Rightarrow> Num 0 | Some v \<Rightarrow> v) = Num 100"
    by simp
  from eval_helpers_scope_and_zero
         [of "''zero''" JNull 0 "\<lparr>tr_attributes = [], tr_metrics = [(''tokens'', Num 100)]\<rparr>" 0]
       p(1) z
  have A: "incrementEvalMetric ''zero'' 0 (Some \<lparr>tr_attributes = [], tr_metrics = [(''tokens'', Num 100)]\<rparr>)
       = Some \<lparr>tr_attributes = [], tr_metrics = [(''tokens'', Num 100)]\<rparr>"
    by blast
  from eval_helpers_scope_and_zero
         [of "''tokens''" JNull 50 "\<lparr>tr_attributes = [], tr_metrics = [(''tokens'', Num 100)]\<rparr>" 100]
       p(2) c
  have B: "\<exists>taskRun'. incrementEvalMetric ''tokens'' 50
                      (Some \<lparr>tr_attributes = [], tr_metrics = [(''tokens'', Num 100)]\<rparr>) = Some taskRun'
          \<and> map_of (tr_metrics taskRun') ''tokens'' = Some (Num 150)
          \<and> tr_attributes taskRun' = []"
    by auto
  from p z c A B show ?thesis by simp
qed

text \<open>
  C10.  A zero increment of a metric with no recorded value is meant to record nothing
  (the source: ``avoid recording a metric that is always zero''), and does so for the
  names above.  For a property name of \<open>Object.prototype\<close> it does not: on a fresh store,
  incrementing the metric \<open>constructor\<close> by zero reads the inherited \<open>Object\<close> function as
  the current value (\<open>metrics[name] ?? 0\<close>), the sum is a text, not 0, and it is stored
  under a new key.
\<close>

theorem incrementEvalMetric_inherited_name:
  "map_of (tr_metrics \<lparr>tr_attributes = [], tr_metrics = []\<rparr>) ''constructor'' = None
   \<and> incrementEvalMetric ''constructor'' 0 (Some \<lparr>tr_attributes = [], tr_metrics = []\<rparr>)
       = Some \<lparr>tr_attributes = [], tr_metrics = [(''constructor'', NotNumber)]\<rparr>"
  by (simp add: incrementEvalMetric_def get_or_zero_def inherited_def Object_prototype_names_def
        set_prop_def)

section \<open>Properties of the orchestrator\<close>

text \<open>
  C1 (as amended).  Whenever \<open>evaluate\<close> returns a report, every scheduled unit has
  returned one result, a report case or a failure; the report's two lists are exactly the
  results of each kind, and their lengths add up to (number of cases) times the repeat
  count.  It returns a report for a repeat count of at least 1 when the limiter accepts
  the concurrency setting and no \<open>catch\<close> block of the orchestrator throws.
\<close>

theorem evaluate_report_size:
  "(evaluate_ds rt ds task opts = Inr report \<longrightarrow>
      unit_runs rt ds task (repeat_of opts) = map Inr (unit_results rt ds task (repeat_of opts))
      \<and> rep_cases report = cases_of (unit_results rt ds task (repeat_of opts))
      \<and> rep_failures report = failures_of (unit_results rt ds task (repeat_of opts))
      \<and> length (unit_results rt ds task (repeat_of opts)) = length (ds_cases ds) * nat (repeat_of opts)
      \<and> length (rep_cases report) + length (rep_failures report)
          = length (ds_cases ds) * nat (repeat_of opts))
   \<and> (1 \<le> repeat_of opts \<and> rt_pLimit rt (limit_argument opts) = None \<and> handlers_safe ds task \<longrightarrow>
        (\<exists>report. evaluate_ds rt ds task opts = Inr report))"
proof (intro conjI impI)
  assume ev: "evaluate_ds rt ds task opts = Inr report"
  let ?results = "unit_results rt ds task (repeat_of opts)"
  note D = evaluate_ds_InrD[OF ev]
  show "unit_runs rt ds task (repeat_of opts) = map Inr ?results" by (rule D(3))
  show c: "rep_cases report = cases_of ?results" by (rule D(4))
  show f: "rep_failures report = failures_of ?results" by (rule D(5))
  show l: "length ?results = length (ds_cases ds) * nat (repeat_of opts)"
    using ev by (rule length_unit_results)
  from c f l length_cases_failures[of ?results]
  show "length (rep_cases report) + length (rep_failures report)
          = length (ds_cases ds) * nat (repeat_of opts)"
    by simp
next
  assume "1 \<le> repeat_of opts \<and> rt_pLimit rt (limit_argument opts) = None \<and> handlers_safe ds task"
  then show "\<exists>report. evaluate_ds rt ds task opts = Inr report"
    using evaluate_ds_returns by blast
qed

text \<open>
  Three evaluations with repeat 2 that return no report: \<open>pLimit(-2)\<close> throws its
  \<open>TypeError\<close> out of \<open>evaluate\<close>; a task throws an object without prototype, and the
  \<open>String(e)\<close> of the unit's \<open>catch\<close> block throws; a report evaluator's \<open>evaluate\<close> throws and
  the \<open>asSpec()\<close> of the \<open>catch\<close> block throws.
\<close>

theorem evaluate_returns_no_report:
  "repeat_of (demo_options (Some 2) (Some (- 2))) = 2
   \<and> evaluate_ds demo_runtime demo_dataset demo_task (demo_options (Some 2) (Some (- 2)))
       = Inl (ThrownError \<lparr>err_name = ''TypeError'',
                err_message = ''Expected `concurrency` to be a number from 1 and up'',
                err_stack = demo_stack ''TypeError'' ''Expected `concurrency` to be a number from 1 and up''\<rparr>)
   \<and> evaluate_ds demo_runtime demo_dataset demo_bare_task (demo_options (Some 2) None)
       = Inl (ThrownError \<lparr>err_name = ''TypeError'',
                err_message = ''Cannot convert object to primitive value'',
                err_stack = Some ''TypeError: Cannot convert object to primitive value (at String)''\<rparr>)
   \<and> evaluate_ds demo_runtime demo_analysed_dataset demo_task (demo_options (Some 2) None)
       = Inl (ThrownError \<lparr>err_name = ''Error'', err_message = ''no fields'',
                err_stack = Some ''Error: no fields (at getFields)''\<rparr>)"
proof (intro conjI)
  show "repeat_of (demo_options (Some 2) (Some (- 2))) = 2" by (simp add: demo_repeat)
  show "evaluate_ds demo_runtime demo_dataset demo_task (demo_options (Some 2) (Some (- 2)))
       = Inl (ThrownError \<lparr>err_name = ''TypeError'',
                err_message = ''Expected `concurrency` to be a number from 1 and up'',
                err_stack = demo_stack ''TypeError'' ''Expected `concurrency` to be a number from 1 and up''\<rparr>)"
    by (simp add: evaluate_ds_def repeat_of_def demo_options_def limit_argument_def demo_runtime_def
          pLimit_check_def new_Error_def)
  show "evaluate_ds demo_runtime demo_dataset demo_bare_task (demo_options (Some 2) None)
       = Inl (ThrownError \<lparr>err_name = ''TypeError'',
                err_message = ''Cannot convert object to primitive value'',
                err_stack = Some ''TypeError: Cannot convert object to primitive value (at String)''\<rparr>)"
    by code_simp
  show "evaluate_ds demo_runtime demo_analysed_dataset demo_task (demo_options (Some 2) None)
       = Inl (ThrownError \<lparr>err_name = ''Error'', err_message = ''no fields'',
                err_stack = Some ''Error: no fields (at getFields)''\<rparr>)"
    by code_simp
qed

theorem evaluate_report_size_witness:
  "1 \<le> repeat_of (demo_options (Some 2) None)
   \<and> rt_pLimit demo_runtime (limit_argument (demo_options (Some 2) None)) = None
   \<and> handlers_safe demo_dataset demo_task
   \<and> (\<exists>report. evaluate_ds demo_runtime demo_dataset demo_task (demo_options (Some 2) None) = Inr report
         \<and> length (rep_cases report) + length (rep_failures report) = 4)"
proof -
  have h1: "1 \<le> repeat_of (demo_options (Some 2) None)" by (simp add: demo_repeat)
  have h2: "rt_pLimit demo_runtime (limit_argument (demo_options (Some 2) None)) = None"
    by (rule demo_limit_accepts)
  note h3 = demo_handlers_safe
  have n: "length (ds_cases demo_dataset) * nat (repeat_of (demo_options (Some 2) None)) = 4"
    by (simp add: demo_dataset_def demo_repeat)
  from evaluate_report_size[of demo_runtime demo_dataset demo_task "demo_options (Some 2) None"]
       h1 h2 h3
  obtain report where ev: "evaluate_ds demo_runtime demo_dataset demo_task (demo_options (Some 2) None) = Inr report"
    by blast
  from evaluate_report_size[of demo_runtime demo_dataset demo_task "demo_options (Some 2) None" report]
       ev
  have "length (rep_cases report) + length (rep_failures report)
          = length (ds_cases demo_dataset) * nat (repeat_of (demo_options (Some 2) None))"
    by blast
  with n have "length (rep_cases report) + length (rep_failures report) = 4" by simp
  with h1 h2 h3 ev show ?thesis by blast
qed

text \<open>
  C2 (as amended).  \<open>evaluate\<close> throws when \<open>repeat < 1\<close> and when the limiter rejects the
  \<open>maxConcurrency\<close> it is built with; both are decided before any unit runs (the thrown
  value does not depend on the task or the dataset).  Otherwise, when no \<open>catch\<close> block of
  the orchestrator throws, it returns a report made of the units' results, whatever the
  task does.  Each unit's result is that of its own run.  A unit whose task throws \<open>e\<close> at
  every call ends as the failure record with message \<open>name: message\<close> of the error and its
  stack, or the empty string when there is none; that record is the same with no
  evaluators at all.  A unit whose task returns at its first call, with evaluators out of
  which nothing escapes, ends as a report case with the task's output.
\<close>

theorem evaluate_failure_isolation:
  "(repeat_of opts < 1 \<longrightarrow>
      evaluate_ds rt ds task opts = Inl (repeat_error (rt_stack rt) (repeat_of opts)))
   \<and> (1 \<le> repeat_of opts \<and> rt_pLimit rt (limit_argument opts) = Some e0 \<longrightarrow>
         evaluate_ds rt ds task opts = Inl e0)
   \<and> (1 \<le> repeat_of opts \<and> rt_pLimit rt (limit_argument opts) = None \<and> handlers_safe ds task \<longrightarrow>
         (\<exists>report. evaluate_ds rt ds task opts = Inr report
            \<and> rep_cases report = cases_of (unit_results rt ds task (repeat_of opts))
            \<and> rep_failures report = failures_of (unit_results rt ds task (repeat_of opts))))
   \<and> length (unit_runs rt ds task (repeat_of opts))
         = length (buildTasksToRun (ds_cases ds) (repeat_of opts))
   \<and> (\<forall>j c reportName sourceName.
         j < length (buildTasksToRun (ds_cases ds) (repeat_of opts))
         \<and> buildTasksToRun (ds_cases ds) (repeat_of opts) ! j = (c, reportName, sourceName) \<longrightarrow>
         unit_runs rt ds task (repeat_of opts) ! j =
           runTaskAndEvaluators rt j (ds_evaluators ds) task c reportName sourceName
         \<and> (\<forall>e error.
               (\<forall>n. snd (task_fn task (case_inputs c) j n) = Inl e)
               \<and> as_error (rt_stack rt) e = Inr error \<longrightarrow>
               unit_runs rt ds task (repeat_of opts) ! j =
                 Inr (FailureResult
                       \<lparr>rf_name = reportName,
                        rf_inputs = case_inputs c,
                        rf_metadata = case_metadata c,
                        rf_expectedOutput = case_expectedOutput c,
                        rf_errorMessage = err_name error @ '': '' @ err_message error,
                        rf_errorStacktrace = (case err_stack error of None \<Rightarrow> [] | Some s \<Rightarrow> s),
                        rf_sourceCaseName = sourceName,
                        rf_traceId = None,
                        rf_spanId = None\<rparr>)
               \<and> unit_runs rt ds task (repeat_of opts) ! j =
                   runTaskAndEvaluators rt j [] task (c\<lparr>case_evaluators := None\<rparr>)
                     reportName sourceName)
         \<and> (\<forall>out.
               snd (task_fn task (case_inputs c) j 0) = Inr out
               \<and> (\<forall>ev \<in> set ((case case_evaluators c of None \<Rightarrow> [] | Some evs \<Rightarrow> evs)
                                 @ ds_evaluators ds). contained_evaluator ev) \<longrightarrow>
               (\<exists>rc. unit_runs rt ds task (repeat_of opts) ! j = Inr (CaseResult rc)
                  \<and> rc_output rc = out)))"
proof (intro conjI allI impI)
  show "repeat_of opts < 1 \<Longrightarrow>
          evaluate_ds rt ds task opts = Inl (repeat_error (rt_stack rt) (repeat_of opts))"
    by (rule evaluate_ds_repeat_error)
  show "1 \<le> repeat_of opts \<and> rt_pLimit rt (limit_argument opts) = Some e0
          \<Longrightarrow> evaluate_ds rt ds task opts = Inl e0"
    by (simp add: evaluate_ds_limit_error)
  show "\<exists>report. evaluate_ds rt ds task opts = Inr report
            \<and> rep_cases report = cases_of (unit_results rt ds task (repeat_of opts))
            \<and> rep_failures report = failures_of (unit_results rt ds task (repeat_of opts))"
    if "1 \<le> repeat_of opts \<and> rt_pLimit rt (limit_argument opts) = None \<and> handlers_safe ds task"
  proof -
    from that evaluate_ds_returns[of opts rt ds task] obtain report where
      ev: "evaluate_ds rt ds task opts = Inr report" by blast
    from evaluate_ds_InrD(4,5)[OF ev] ev show ?thesis by blast
  qed
  show "length (unit_runs rt ds task (repeat_of opts))
         = length (buildTasksToRun (ds_cases ds) (repeat_of opts))"
    by (rule length_unit_runs)
next
  fix j c reportName sourceName
  assume a: "j < length (buildTasksToRun (ds_cases ds) (repeat_of opts))
         \<and> buildTasksToRun (ds_cases ds) (repeat_of opts) ! j = (c, reportName, sourceName)"
  then show n: "unit_runs rt ds task (repeat_of opts) ! j =
      runTaskAndEvaluators rt j (ds_evaluators ds) task c reportName sourceName"
    by (simp add: unit_runs_nth)
  {
    fix e error
    assume t: "(\<forall>n. snd (task_fn task (case_inputs c) j n) = Inl e)
               \<and> as_error (rt_stack rt) e = Inr error"
    then have t1: "\<And>n. snd (task_fn task (case_inputs c) j n) = Inl e" by blast
    then have t2: "\<And>n. snd (task_fn task (case_inputs (c\<lparr>case_evaluators := None\<rparr>)) j n) = Inl e"
      by simp
    from t have er: "as_error (rt_stack rt) e = Inr error" by blast
    have u: "unit_failure (rt_stack rt) (c\<lparr>case_evaluators := None\<rparr>) reportName sourceName e
               = unit_failure (rt_stack rt) c reportName sourceName e"
      by (simp add: unit_failure_def split: sum.splits)
    from runTaskAndEvaluators_throw[of task c j e rt "ds_evaluators ds" reportName sourceName, OF t1]
         unit_failure_printable[OF er, of c reportName sourceName] n
    show "unit_runs rt ds task (repeat_of opts) ! j =
                 Inr (FailureResult
                       \<lparr>rf_name = reportName,
                        rf_inputs = case_inputs c,
                        rf_metadata = case_metadata c,
                        rf_expectedOutput = case_expectedOutput c,
                        rf_errorMessage = err_name error @ '': '' @ err_message error,
                        rf_errorStacktrace = (case err_stack error of None \<Rightarrow> [] | Some s \<Rightarrow> s),
                        rf_sourceCaseName = sourceName,
                        rf_traceId = None,
                        rf_spanId = None\<rparr>)"
      by simp
    from runTaskAndEvaluators_throw[of task c j e rt "ds_evaluators ds" reportName sourceName, OF t1]
         runTaskAndEvaluators_throw[of task "c\<lparr>case_evaluators := None\<rparr>" j e rt "[]" reportName sourceName, OF t2]
         u n
    show "unit_runs rt ds task (repeat_of opts) ! j =
            runTaskAndEvaluators rt j [] task (c\<lparr>case_evaluators := None\<rparr>) reportName sourceName"
      by simp
  }
  {
    fix out
    assume o: "snd (task_fn task (case_inputs c) j 0) = Inr out
               \<and> (\<forall>ev \<in> set ((case case_evaluators c of None \<Rightarrow> [] | Some evs \<Rightarrow> evs)
                                 @ ds_evaluators ds). contained_evaluator ev)"
    then have o1: "snd (task_fn task (case_inputs c) j 0) = Inr out"
      and o2: "\<forall>ev \<in> set ((case case_evaluators c of None \<Rightarrow> [] | Some evs \<Rightarrow> evs)
                                 @ ds_evaluators ds). contained_evaluator ev"
      by blast+
    from runTaskAndEvaluators_ok[OF o1 o2, of rt reportName sourceName] n
    show "\<exists>rc. unit_runs rt ds task (repeat_of opts) ! j = Inr (CaseResult rc) \<and> rc_output rc = out"
      by auto
  }
qed

text \<open>
  Three evaluations with the default repeat count.  With \<open>maxConcurrency = -1\<close>,
  \<open>pLimit(-1)\<close> throws its \<open>TypeError\<close> out of \<open>evaluate\<close>.  With OpenTelemetry configured, a
  task that throws at its first call is called a second time by \<open>withSpanCapture\<close>; when
  that call returns, the error is not recorded and the unit ends as a report case.  A task
  that throws an object without prototype makes the unit's \<open>catch\<close> block throw, and
  \<open>evaluate\<close> with it.
\<close>

theorem evaluate_throws_and_retries:
  "repeat_of (demo_options None (Some (- 1))) = 1
   \<and> evaluate_ds demo_runtime demo_dataset demo_task (demo_options None (Some (- 1)))
       = Inl (ThrownError \<lparr>err_name = ''TypeError'',
                err_message = ''Expected `concurrency` to be a number from 1 and up'',
                err_stack = demo_stack ''TypeError'' ''Expected `concurrency` to be a number from 1 and up''\<rparr>)
   \<and> snd (task_fn demo_flaky_task ''boom'' 0 0) = Inl (ThrownError demo_error)
   \<and> map_sum id (\<lambda>report. (map rf_name (rep_failures report), map rc_output (rep_cases report)))
        (evaluate_ds demo_otel_runtime demo_dataset demo_flaky_task (demo_options None None))
       = Inr ([], [''boom'', ''hello''])
   \<and> evaluate_ds demo_runtime demo_dataset demo_bare_task (demo_options None None)
       = Inl (ThrownError \<lparr>err_name = ''TypeError'',
                err_message = ''Cannot convert object to primitive value'',
                err_stack = Some ''TypeError: Cannot convert object to primitive value (at String)''\<rparr>)"
proof (intro conjI)
  show "repeat_of (demo_options None (Some (- 1))) = 1" by (simp add: demo_repeat)
  show "evaluate_ds demo_runtime demo_dataset demo_task (demo_options None (Some (- 1)))
       = Inl (ThrownError \<lparr>err_name = ''TypeError'',
                err_message = ''Expected `concurrency` to be a number from 1 and up'',
                err_stack = demo_stack ''TypeError'' ''Expected `concurrency` to be a number from 1 and up''\<rparr>)"
    by (simp add: evaluate_ds_def repeat_of_def demo_options_def limit_argument_def demo_runtime_def
          pLimit_check_def new_Error_def)
  show "snd (task_fn demo_flaky_task ''boom'' 0 0) = Inl (ThrownError demo_error)"
    by (simp add: demo_flaky_task_def)
  show "map_sum id (\<lambda>report. (map rf_name (rep_failures report), map rc_output (rep_cases report)))
        (evaluate_ds demo_otel_runtime demo_dataset demo_flaky_task (demo_options None None))
       = Inr ([], [''boom'', ''hello''])"
    by code_simp
  show "evaluate_ds demo_runtime demo_dataset demo_bare_task (demo_options None None)
       = Inl (ThrownError \<lparr>err_name = ''TypeError'',
                err_message = ''Cannot convert object to primitive value'',
                err_stack = Some ''TypeError: Cannot convert object to primitive value (at String)''\<rparr>)"
    by code_simp
qed

lemma demo_failures:
  "map rf_errorMessage (failures_of (unit_results demo_runtime demo_dataset demo_task 1)) = [''RangeError: too loud'']"
  by code_simp

lemma demo_cases:
  "map rc_output (cases_of (unit_results demo_runtime demo_dataset demo_task 1)) = [''hello'']"
  by code_simp

lemma demo_first_unit:
  "0 < length (buildTasksToRun (ds_cases demo_dataset) 1)
   \<and> buildTasksToRun (ds_cases demo_dataset) 1 ! 0 = (hd (ds_cases demo_dataset), ''x'', None)"
  by (simp add: buildTasksToRun_def demo_dataset_def case_display_name_def)

theorem evaluate_failure_isolation_witness:
  "1 \<le> repeat_of (demo_options None (Some 2))
   \<and> rt_pLimit demo_runtime (limit_argument (demo_options None (Some 2))) = None
   \<and> handlers_safe demo_dataset demo_task
   \<and> (\<exists>report. evaluate_ds demo_runtime demo_dataset demo_task (demo_options None (Some 2)) = Inr report
         \<and> map rf_errorMessage (rep_failures report) = [''RangeError: too loud'']
         \<and> map rc_output (rep_cases report) = [''hello''])
   \<and> buildTasksToRun (ds_cases demo_dataset) 1 ! 0 = (hd (ds_cases demo_dataset), ''x'', None)
   \<and> (\<forall>n. snd (task_fn demo_task (case_inputs (hd (ds_cases demo_dataset))) 0 n)
            = Inl (ThrownError demo_error))
   \<and> as_error (rt_stack demo_runtime) (ThrownError demo_error) = Inr demo_error
   \<and> unit_runs demo_runtime demo_dataset demo_task 1 ! 0 =
         Inr (FailureResult
           \<lparr>rf_name = ''x'', rf_inputs = ''boom'', rf_metadata = None, rf_expectedOutput = None,
            rf_errorMessage = ''RangeError: too loud'',
            rf_errorStacktrace = ''RangeError: too loud (at shout)'',
            rf_sourceCaseName = None, rf_traceId = None, rf_spanId = None\<rparr>)"
proof -
  let ?opts = "demo_options None (Some 2)"
  note u = demo_first_unit
  have t: "\<forall>n. snd (task_fn demo_task (case_inputs (hd (ds_cases demo_dataset))) 0 n)
      = Inl (ThrownError demo_error)"
    by (simp add: demo_task_def demo_dataset_def)
  have ae: "as_error (rt_stack demo_runtime) (ThrownError demo_error) = Inr demo_error" by simp
  have c: "case_inputs (hd (ds_cases demo_dataset)) = ''boom''
      \<and> case_metadata (hd (ds_cases demo_dataset)) = None
      \<and> case_expectedOutput (hd (ds_cases demo_dataset)) = None"
    by (simp add: demo_dataset_def)
  have r: "repeat_of ?opts = 1" by (simp add: demo_repeat)
  have l: "rt_pLimit demo_runtime (limit_argument ?opts) = None"
    by (simp add: demo_runtime_def limit_argument_def demo_options_def pLimit_check_def)
  note T = evaluate_failure_isolation[of ?opts demo_runtime demo_dataset demo_task]
  from T have "1 \<le> repeat_of ?opts \<and> rt_pLimit demo_runtime (limit_argument ?opts) = None
                 \<and> handlers_safe demo_dataset demo_task \<longrightarrow>
         (\<exists>report. evaluate_ds demo_runtime demo_dataset demo_task ?opts = Inr report
            \<and> rep_cases report = cases_of (unit_results demo_runtime demo_dataset demo_task (repeat_of ?opts))
            \<and> rep_failures report = failures_of (unit_results demo_runtime demo_dataset demo_task (repeat_of ?opts)))"
    by blast
  with r l demo_handlers_safe demo_failures demo_cases
  have A: "\<exists>report. evaluate_ds demo_runtime demo_dataset demo_task ?opts = Inr report
         \<and> map rf_errorMessage (rep_failures report) = [''RangeError: too loud'']
         \<and> map rc_output (rep_cases report) = [''hello'']"
    by auto
  from T have "\<forall>j c reportName sourceName.
         j < length (buildTasksToRun (ds_cases demo_dataset) (repeat_of ?opts))
         \<and> buildTasksToRun (ds_cases demo_dataset) (repeat_of ?opts) ! j = (c, reportName, sourceName) \<longrightarrow>
         (\<forall>e error.
               (\<forall>n. snd (task_fn demo_task (case_inputs c) j n) = Inl e)
               \<and> as_error (rt_stack demo_runtime) e = Inr error \<longrightarrow>
               unit_runs demo_runtime demo_dataset demo_task (repeat_of ?opts) ! j =
                 Inr (FailureResult
                       \<lparr>rf_name = reportName,
                        rf_inputs = case_inputs c,
                        rf_metadata = case_metadata c,
                        rf_expectedOutput = case_expectedOutput c,
                        rf_errorMessage = err_name error @ '': '' @ err_message error,
                        rf_errorStacktrace = (case err_stack error of None \<Rightarrow> [] | Some s \<Rightarrow> s),
                        rf_sourceCaseName = sourceName,
                        rf_traceId = None,
                        rf_spanId = None\<rparr>))"
    by blast
  from this[rule_format, of 0 "hd (ds_cases demo_dataset)" "''x''" None "ThrownError demo_error" demo_error]
       u r t ae c
  have B: "unit_runs demo_runtime demo_dataset demo_task 1 ! 0 =
         Inr (FailureResult
           \<lparr>rf_name = ''x'', rf_inputs = ''boom'', rf_metadata = None, rf_expectedOutput = None,
            rf_errorMessage = ''RangeError: too loud'',
            rf_errorStacktrace = ''RangeError: too loud (at shout)'',
            rf_sourceCaseName = None, rf_traceId = None, rf_spanId = None\<rparr>)"
    by (simp add: demo_error_def)
  from r l demo_handlers_safe A B u t ae show ?thesis by simp
qed

section \<open>Properties of the evaluator runner\<close>

text \<open>
  C3 (as amended).  For an evaluator whose \<open>getDefaultEvaluationName()\<close> and \<open>asSpec()\<close>
  return: a throw of \<open>evaluate\<close> with a string conversion (or of reading the entries of a
  \<open>null\<close> or \<open>undefined\<close> result) comes back as the failure record with the evaluator's
  default name, the error's \<open>name: message\<close>, its stack (the empty string when there is
  none) and the evaluator's spec.  A scalar result, and an object result whose \<open>value\<close>
  property holds a scalar, become one result under the evaluator's default name.  An
  object result with no scalar under \<open>value\<close> is read as a map and becomes one result per
  entry, named by the entry's key.  No exception escapes when every throw of \<open>evaluate\<close>
  has a string conversion.
\<close>

theorem runEvaluator_normalizes:
  "getDefaultEvaluationName ev = Inr name \<and> asSpec ev = Inr source \<longrightarrow>
   (evaluate ev ctx = Inl e \<and> as_error stack e = Inr error \<longrightarrow>
      runEvaluator stack ev ctx =
        Inr (Inl \<lparr>ef_name = name,
                  ef_errorMessage = err_name error @ '': '' @ err_message error,
                  ef_errorStacktrace = (case err_stack error of None \<Rightarrow> [] | Some s \<Rightarrow> s),
                  ef_source = source\<rparr>))
   \<and> (evaluate ev ctx = Inr v \<and> isEvaluationScalar v \<longrightarrow>
      runEvaluator stack ev ctx =
        Inr (Inr [\<lparr>er_name = name, er_value = v, er_reason = JNull, er_source = source\<rparr>]))
   \<and> (evaluate ev ctx = Inr (JObj props) \<and> map_of props ''value'' = Some x \<and> isEvaluationScalar x \<longrightarrow>
      runEvaluator stack ev ctx =
        Inr (Inr [\<lparr>er_name = name, er_value = x,
                   er_reason = or_null (prop_get (JObj props) ''reason''), er_source = source\<rparr>]))
   \<and> (evaluate ev ctx = Inr (JObj props)
        \<and> \<not> (\<exists>x. map_of props ''value'' = Some x \<and> isEvaluationScalar x) \<longrightarrow>
      (\<exists>rs. runEvaluator stack ev ctx = Inr (Inr rs)
         \<and> map er_name rs = map fst props
         \<and> map er_value rs =
             map (\<lambda>(k, r). if isEvaluationReason r then prop_get r ''value'' else r) props
         \<and> map er_reason rs =
             map (\<lambda>(k, r). if isEvaluationReason r then or_null (prop_get r ''reason'') else JNull) props
         \<and> map er_source rs = map (\<lambda>_. source) props))
   \<and> (evaluate ev ctx = Inr v \<and> (v = JNull \<or> v = JUndefined) \<longrightarrow>
      runEvaluator stack ev ctx =
        Inr (Inl \<lparr>ef_name = name,
                  ef_errorMessage = ''TypeError: Cannot convert undefined or null to object'',
                  ef_errorStacktrace =
                    (case stack ''TypeError'' ''Cannot convert undefined or null to object'' of
                       None \<Rightarrow> [] | Some s \<Rightarrow> s),
                  ef_source = source\<rparr>))
   \<and> ((\<forall>e. evaluate ev ctx = Inl e \<longrightarrow> printable e) \<longrightarrow>
        (\<exists>out. runEvaluator stack ev ctx = Inr out))"
proof (intro impI)
  assume h: "getDefaultEvaluationName ev = Inr name \<and> asSpec ev = Inr source"
  then have n: "getDefaultEvaluationName ev = Inr name" and s: "asSpec ev = Inr source" by blast+
  show "(evaluate ev ctx = Inl e \<and> as_error stack e = Inr error \<longrightarrow>
      runEvaluator stack ev ctx =
        Inr (Inl \<lparr>ef_name = name,
                  ef_errorMessage = err_name error @ '': '' @ err_message error,
                  ef_errorStacktrace = (case err_stack error of None \<Rightarrow> [] | Some s \<Rightarrow> s),
                  ef_source = source\<rparr>))
   \<and> (evaluate ev ctx = Inr v \<and> isEvaluationScalar v \<longrightarrow>
      runEvaluator stack ev ctx =
        Inr (Inr [\<lparr>er_name = name, er_value = v, er_reason = JNull, er_source = source\<rparr>]))
   \<and> (evaluate ev ctx = Inr (JObj props) \<and> map_of props ''value'' = Some x \<and> isEvaluationScalar x \<longrightarrow>
      runEvaluator stack ev ctx =
        Inr (Inr [\<lparr>er_name = name, er_value = x,
                   er_reason = or_null (prop_get (JObj props) ''reason''), er_source = source\<rparr>]))
   \<and> (evaluate ev ctx = Inr (JObj props)
        \<and> \<not> (\<exists>x. map_of props ''value'' = Some x \<and> isEvaluationScalar x) \<longrightarrow>
      (\<exists>rs. runEvaluator stack ev ctx = Inr (Inr rs)
         \<and> map er_name rs = map fst props
         \<and> map er_value rs =
             map (\<lambda>(k, r). if isEvaluationReason r then prop_get r ''value'' else r) props
         \<and> map er_reason rs =
             map (\<lambda>(k, r). if isEvaluationReason r then or_null (prop_get r ''reason'') else JNull) props
         \<and> map er_source rs = map (\<lambda>_. source) props))
   \<and> (evaluate ev ctx = Inr v \<and> (v = JNull \<or> v = JUndefined) \<longrightarrow>
      runEvaluator stack ev ctx =
        Inr (Inl \<lparr>ef_name = name,
                  ef_errorMessage = ''TypeError: Cannot convert undefined or null to object'',
                  ef_errorStacktrace =
                    (case stack ''TypeError'' ''Cannot convert undefined or null to object'' of
                       None \<Rightarrow> [] | Some s \<Rightarrow> s),
                  ef_source = source\<rparr>))
   \<and> ((\<forall>e. evaluate ev ctx = Inl e \<longrightarrow> printable e) \<longrightarrow>
        (\<exists>out. runEvaluator stack ev ctx = Inr out))"
  proof (intro conjI impI)
    assume a: "evaluate ev ctx = Inr (JObj props)
          \<and> \<not> (\<exists>x. map_of props ''value'' = Some x \<and> isEvaluationScalar x)"
    then have "\<not> isEvaluationReason (JObj props)"
      by (auto simp: isEvaluationReason_def split: option.splits)
    with a have "runEvaluator stack ev ctx = Inr (Inr (map (detail_of source) props))"
      by (simp add: runEvaluator_map[OF n s])
    then show "\<exists>rs. runEvaluator stack ev ctx = Inr (Inr rs)
           \<and> map er_name rs = map fst props
           \<and> map er_value rs =
               map (\<lambda>(k, r). if isEvaluationReason r then prop_get r ''value'' else r) props
           \<and> map er_reason rs =
               map (\<lambda>(k, r). if isEvaluationReason r then or_null (prop_get r ''reason'') else JNull) props
           \<and> map er_source rs = map (\<lambda>_. source) props"
      by (simp add: er_name_detail_of er_value_detail_of er_reason_detail_of er_source_detail_of
            case_prod_beta comp_def)
  next
    assume "\<forall>e. evaluate ev ctx = Inl e \<longrightarrow> printable e"
    then show "\<exists>out. runEvaluator stack ev ctx = Inr out"
      using runEvaluator_returns[OF n s] by blast
  qed (simp_all add: runEvaluator_throw[OF n s] runEvaluator_scalar[OF n s]
         runEvaluator_reason[OF n s] runEvaluator_nullish[OF n s])
qed

text \<open>
  Two runs that go otherwise.  A map of two named results, one of them named
  \<open>value\<close>: the runner takes it for a single \<open>{value, reason?}\<close> result, names it after the
  evaluator and drops the other entry.  An evaluator whose \<open>evaluate\<close> throws and whose
  \<open>asSpec()\<close> throws: the \<open>catch\<close> block calls \<open>asSpec()\<close>, and its exception escapes
  \<open>runEvaluator\<close>.
\<close>

theorem runEvaluator_misreads_and_escapes:
  "evaluate (demo_evaluator ''Quality'' (JObj [(''value'', JBool True), (''accuracy'', JNum 1)])) demo_context
     = Inr (JObj [(''value'', JBool True), (''accuracy'', JNum 1)])
   \<and> list_all (\<lambda>(k, r). isEvaluationScalar r \<or> isEvaluationReason r)
        [(''value'', JBool True), (''accuracy'', JNum 1)]
   \<and> runEvaluator demo_stack
        (demo_evaluator ''Quality'' (JObj [(''value'', JBool True), (''accuracy'', JNum 1)])) demo_context
     = Inr (Inr [\<lparr>er_name = ''Quality'', er_value = JBool True, er_reason = JNull,
                  er_source = \<lparr>spec_name = ''Quality'', spec_arguments = NoArguments\<rparr>\<rparr>])
   \<and> evaluate demo_specless_evaluator demo_context = Inl (ThrownValue ''boom'')
   \<and> runEvaluator demo_stack demo_specless_evaluator demo_context
     = Inl (ThrownError \<lparr>err_name = ''Error'', err_message = ''no fields'',
                          err_stack = Some ''Error: no fields (at getFields)''\<rparr>)"
  by (simp add: runEvaluator_def runEvaluator_try_def runEvaluator_catch_def normalizeToMapping_def
        detail_of_def isEvaluationReason_def isEvaluationScalar_def prop_get_def or_null_def
        demo_evaluator_def demo_specless_evaluator_def Evaluator_getDefaultEvaluationName_def
        new_Error_def)

lemma demo_evaluator_methods:
  "getDefaultEvaluationName (demo_evaluator n v) = Inr n"
  "asSpec (demo_evaluator n v) = Inr \<lparr>spec_name = n, spec_arguments = NoArguments\<rparr>"
  "evaluate (demo_evaluator n v) ctx = Inr v"
  by (simp_all add: demo_evaluator_def Evaluator_getDefaultEvaluationName_def)

lemma demo_throwing_evaluator_methods:
  "getDefaultEvaluationName demo_throwing_evaluator = Inr ''named''"
  "asSpec demo_throwing_evaluator = Inr \<lparr>spec_name = ''Bad'', spec_arguments = NoArguments\<rparr>"
  "evaluate demo_throwing_evaluator ctx = Inl (ThrownValue ''boom'')"
  by (simp_all add: demo_throwing_evaluator_def Evaluator_getDefaultEvaluationName_def)

theorem runEvaluator_normalizes_witness:
  "getDefaultEvaluationName (demo_evaluator ''Multi'' (JObj [(''check_a'', JBool True), (''check_b'', JObj [(''value'', JNum 3), (''reason'', JStr ''ok'')])])) = Inr ''Multi''
   \<and> evaluate (demo_evaluator ''Multi'' (JObj [(''check_a'', JBool True), (''check_b'', JObj [(''value'', JNum 3), (''reason'', JStr ''ok'')])])) demo_context
     = Inr (JObj [(''check_a'', JBool True), (''check_b'', JObj [(''value'', JNum 3), (''reason'', JStr ''ok'')])])
   \<and> \<not> (\<exists>x. map_of [(''check_a'', JBool True), (''check_b'', JObj [(''value'', JNum 3), (''reason'', JStr ''ok'')])] ''value'' = Some x
            \<and> isEvaluationScalar x)
   \<and> (\<exists>rs. runEvaluator demo_stack (demo_evaluator ''Multi'' (JObj [(''check_a'', JBool True), (''check_b'', JObj [(''value'', JNum 3), (''reason'', JStr ''ok'')])])) demo_context = Inr (Inr rs)
         \<and> map er_name rs = [''check_a'', ''check_b'']
         \<and> map er_value rs = [JBool True, JNum 3]
         \<and> map er_reason rs = [JNull, JStr ''ok''])
   \<and> evaluate (demo_evaluator ''Plain'' (JNum 1)) demo_context = Inr (JNum 1)
   \<and> isEvaluationScalar (JNum 1)
   \<and> runEvaluator demo_stack (demo_evaluator ''Plain'' (JNum 1)) demo_context
       = Inr (Inr [\<lparr>er_name = ''Plain'', er_value = JNum 1, er_reason = JNull,
                    er_source = \<lparr>spec_name = ''Plain'', spec_arguments = NoArguments\<rparr>\<rparr>])
   \<and> map_of [(''value'', JBool False), (''reason'', JStr ''it failed'')] ''value'' = Some (JBool False)
   \<and> runEvaluator demo_stack (demo_evaluator ''Why'' (JObj [(''value'', JBool False), (''reason'', JStr ''it failed'')])) demo_context
       = Inr (Inr [\<lparr>er_name = ''Why'', er_value = JBool False, er_reason = JStr ''it failed'',
                    er_source = \<lparr>spec_name = ''Why'', spec_arguments = NoArguments\<rparr>\<rparr>])
   \<and> getDefaultEvaluationName demo_throwing_evaluator = Inr ''named''
   \<and> evaluate demo_throwing_evaluator demo_context = Inl (ThrownValue ''boom'')
   \<and> as_error demo_stack (ThrownValue ''boom'') = Inr (new_Error demo_stack ''Error'' ''boom'')
   \<and> runEvaluator demo_stack demo_throwing_evaluator demo_context
       = Inr (Inl \<lparr>ef_name = ''named'', ef_errorMessage = ''Error: boom'',
                   ef_errorStacktrace = ''Error: boom (at demo)'',
                   ef_source = \<lparr>spec_name = ''Bad'', spec_arguments = NoArguments\<rparr>\<rparr>)
   \<and> evaluate (demo_evaluator ''Null'' JNull) demo_context = Inr JNull
   \<and> runEvaluator demo_stack (demo_evaluator ''Null'' JNull) demo_context
       = Inr (Inl \<lparr>ef_name = ''Null'',
                   ef_errorMessage = ''TypeError: Cannot convert undefined or null to object'',
                   ef_errorStacktrace = ''TypeError: Cannot convert undefined or null to object (at demo)'',
                   ef_source = \<lparr>spec_name = ''Null'', spec_arguments = NoArguments\<rparr>\<rparr>)"
proof -
  note M = demo_evaluator_methods and N = demo_throwing_evaluator_methods
  let ?multi = "[(''check_a'', JBool True), (''check_b'', JObj [(''value'', JNum 3), (''reason'', JStr ''ok'')])]"
  have A: "\<not> (\<exists>x. map_of ?multi ''value'' = Some x \<and> isEvaluationScalar x)
   \<and> (\<exists>rs. runEvaluator demo_stack (demo_evaluator ''Multi'' (JObj ?multi)) demo_context = Inr (Inr rs)
         \<and> map er_name rs = [''check_a'', ''check_b'']
         \<and> map er_value rs = [JBool True, JNum 3]
         \<and> map er_reason rs = [JNull, JStr ''ok''])"
    using runEvaluator_normalizes
          [of "demo_evaluator ''Multi'' (JObj ?multi)" "''Multi''"
              "\<lparr>spec_name = ''Multi'', spec_arguments = NoArguments\<rparr>"
              demo_context "ThrownValue []" demo_stack "new_Error demo_stack ''Error'' []" JNull ?multi JNull]
    by (auto simp add: M isEvaluationScalar_def isEvaluationReason_def prop_get_def or_null_def)
  have B: "isEvaluationScalar (JNum 1)
   \<and> runEvaluator demo_stack (demo_evaluator ''Plain'' (JNum 1)) demo_context
       = Inr (Inr [\<lparr>er_name = ''Plain'', er_value = JNum 1, er_reason = JNull,
                    er_source = \<lparr>spec_name = ''Plain'', spec_arguments = NoArguments\<rparr>\<rparr>])"
    using runEvaluator_normalizes
          [of "demo_evaluator ''Plain'' (JNum 1)" "''Plain''"
              "\<lparr>spec_name = ''Plain'', spec_arguments = NoArguments\<rparr>"
              demo_context "ThrownValue []" demo_stack "new_Error demo_stack ''Error'' []" "JNum 1" "[]" JNull]
    by (auto simp add: M isEvaluationScalar_def)
  have C: "map_of [(''value'', JBool False), (''reason'', JStr ''it failed'')] ''value'' = Some (JBool False)
   \<and> runEvaluator demo_stack (demo_evaluator ''Why'' (JObj [(''value'', JBool False), (''reason'', JStr ''it failed'')])) demo_context
       = Inr (Inr [\<lparr>er_name = ''Why'', er_value = JBool False, er_reason = JStr ''it failed'',
                    er_source = \<lparr>spec_name = ''Why'', spec_arguments = NoArguments\<rparr>\<rparr>])"
    using runEvaluator_normalizes
          [of "demo_evaluator ''Why'' (JObj [(''value'', JBool False), (''reason'', JStr ''it failed'')])"
              "''Why''" "\<lparr>spec_name = ''Why'', spec_arguments = NoArguments\<rparr>"
              demo_context "ThrownValue []" demo_stack "new_Error demo_stack ''Error'' []" JNull
              "[(''value'', JBool False), (''reason'', JStr ''it failed'')]" "JBool False"]
    by (auto simp add: M isEvaluationScalar_def prop_get_def or_null_def)
  have D: "as_error demo_stack (ThrownValue ''boom'') = Inr (new_Error demo_stack ''Error'' ''boom'')
   \<and> runEvaluator demo_stack demo_throwing_evaluator demo_context
       = Inr (Inl \<lparr>ef_name = ''named'', ef_errorMessage = ''Error: boom'',
                   ef_errorStacktrace = ''Error: boom (at demo)'',
                   ef_source = \<lparr>spec_name = ''Bad'', spec_arguments = NoArguments\<rparr>\<rparr>)"
    using runEvaluator_normalizes
          [of demo_throwing_evaluator "''named''" "\<lparr>spec_name = ''Bad'', spec_arguments = NoArguments\<rparr>"
              demo_context "ThrownValue ''boom''" demo_stack "new_Error demo_stack ''Error'' ''boom''"
              JNull "[]" JNull]
    by (auto simp add: N new_Error_def demo_stack_def)
  have E: "runEvaluator demo_stack (demo_evaluator ''Null'' JNull) demo_context
       = Inr (Inl \<lparr>ef_name = ''Null'',
                   ef_errorMessage = ''TypeError: Cannot convert undefined or null to object'',
                   ef_errorStacktrace = ''TypeError: Cannot convert undefined or null to object (at demo)'',
                   ef_source = \<lparr>spec_name = ''Null'', spec_arguments = NoArguments\<rparr>\<rparr>)"
    using runEvaluator_normalizes
          [of "demo_evaluator ''Null'' JNull" "''Null''" "\<lparr>spec_name = ''Null'', spec_arguments = NoArguments\<rparr>"
              demo_context "ThrownValue []" demo_stack "new_Error demo_stack ''Error'' []" JNull "[]" JNull]
    by (auto simp add: M demo_stack_def)
  from A B C D E M N show ?thesis by (intro conjI) blast+
qed

text \<open>
  C4.  The units in scheduling order, and the names the results carry.  With repeat 1 there
  is one unit per case, named by the case's name when it has one and \<open>Case N\<close> (N the
  1-based position) otherwise, with no source case name; every report case and failure has
  \<open>sourceCaseName\<close> null.  With repeat \<open>r > 1\<close> unit \<open>i * r + k\<close> is run \<open>k + 1\<close> of case \<open>i\<close>,
  named \<open>{caseName} [{k+1}/{r}]\<close>, and every report case and failure carries the case's name
  as \<open>sourceCaseName\<close>.  Each result has the name and source of the unit at its position.
\<close>

theorem unit_names_and_sources:
  assumes "evaluate_ds rt ds task opts = Inr report"
  shows "(\<forall>i c. case_display_name i c
            = (case case_name c of Some n \<Rightarrow> n | None \<Rightarrow> ''Case '' @ show_nat (i + 1)))
   \<and> map (\<lambda>u. (result_name u, result_sourceCaseName u)) (unit_results rt ds task (repeat_of opts))
       = map snd (buildTasksToRun (ds_cases ds) (repeat_of opts))
   \<and> (repeat_of opts = 1 \<longrightarrow>
        length (buildTasksToRun (ds_cases ds) (repeat_of opts)) = length (ds_cases ds)
        \<and> (\<forall>i < length (ds_cases ds).
              buildTasksToRun (ds_cases ds) (repeat_of opts) ! i
                = (ds_cases ds ! i, case_display_name i (ds_cases ds ! i), None))
        \<and> (\<forall>rc \<in> set (rep_cases report).
              rc_sourceCaseName rc = None
              \<and> (\<exists>i < length (ds_cases ds). rc_name rc = case_display_name i (ds_cases ds ! i)))
        \<and> (\<forall>rf \<in> set (rep_failures report).
              rf_sourceCaseName rf = None
              \<and> (\<exists>i < length (ds_cases ds). rf_name rf = case_display_name i (ds_cases ds ! i))))
   \<and> (1 < repeat_of opts \<longrightarrow>
        length (buildTasksToRun (ds_cases ds) (repeat_of opts))
          = length (ds_cases ds) * nat (repeat_of opts)
        \<and> (\<forall>i < length (ds_cases ds). \<forall>k < nat (repeat_of opts).
              buildTasksToRun (ds_cases ds) (repeat_of opts) ! (i * nat (repeat_of opts) + k)
                = (ds_cases ds ! i,
                   case_display_name i (ds_cases ds ! i) @ '' ['' @ show_nat (k + 1) @ ''/''
                     @ show_nat (nat (repeat_of opts)) @ '']'',
                   Some (case_display_name i (ds_cases ds ! i))))
        \<and> (\<forall>rc \<in> set (rep_cases report).
              \<exists>i < length (ds_cases ds). \<exists>k < nat (repeat_of opts).
                rc_sourceCaseName rc = Some (case_display_name i (ds_cases ds ! i))
                \<and> rc_name rc = case_display_name i (ds_cases ds ! i) @ '' ['' @ show_nat (k + 1)
                      @ ''/'' @ show_nat (nat (repeat_of opts)) @ '']'')
        \<and> (\<forall>rf \<in> set (rep_failures report).
              \<exists>i < length (ds_cases ds). \<exists>k < nat (repeat_of opts).
                rf_sourceCaseName rf = Some (case_display_name i (ds_cases ds ! i))
                \<and> rf_name rf = case_display_name i (ds_cases ds ! i) @ '' ['' @ show_nat (k + 1)
                      @ ''/'' @ show_nat (nat (repeat_of opts)) @ '']''))"
proof -
  let ?r = "repeat_of opts"
  let ?units = "buildTasksToRun (ds_cases ds) ?r"
  let ?results = "unit_results rt ds task ?r"
  note D = evaluate_ds_InrD[OF assms]
  have from_case: "\<exists>unit \<in> set ?units. rc_sourceCaseName rc = snd (snd unit) \<and> rc_name rc = fst (snd unit)"
    if "rc \<in> set (rep_cases report)" for rc
  proof -
    from that D(4) have "CaseResult rc \<in> set ?results" by (simp add: set_cases_of)
    from sources_of_units[OF D(3) this] show ?thesis by simp
  qed
  have from_failure: "\<exists>unit \<in> set ?units. rf_sourceCaseName rf = snd (snd unit) \<and> rf_name rf = fst (snd unit)"
    if "rf \<in> set (rep_failures report)" for rf
  proof -
    from that D(5) have "FailureResult rf \<in> set ?results" by (simp add: set_failures_of)
    from sources_of_units[OF D(3) this] show ?thesis by simp
  qed
  have A: "\<forall>i c. case_display_name i c
            = (case case_name c of Some n \<Rightarrow> n | None \<Rightarrow> ''Case '' @ show_nat (i + 1))"
    by (simp add: case_display_name_def)
  have B: "map (\<lambda>u. (result_name u, result_sourceCaseName u)) ?results = map snd ?units"
    by (rule unit_results_names[OF D(3)])
  have C: "length ?units = length (ds_cases ds)
        \<and> (\<forall>i < length (ds_cases ds).
              ?units ! i = (ds_cases ds ! i, case_display_name i (ds_cases ds ! i), None))
        \<and> (\<forall>rc \<in> set (rep_cases report).
              rc_sourceCaseName rc = None
              \<and> (\<exists>i < length (ds_cases ds). rc_name rc = case_display_name i (ds_cases ds ! i)))
        \<and> (\<forall>rf \<in> set (rep_failures report).
              rf_sourceCaseName rf = None
              \<and> (\<exists>i < length (ds_cases ds). rf_name rf = case_display_name i (ds_cases ds ! i)))"
    if one: "?r = 1"
  proof (intro conjI ballI allI impI)
    show "length ?units = length (ds_cases ds)" using one by (simp add: buildTasksToRun_once)
    show "?units ! i = (ds_cases ds ! i, case_display_name i (ds_cases ds ! i), None)"
      if "i < length (ds_cases ds)" for i
      using that one by (simp add: buildTasksToRun_once_nth)
  next
    fix rc assume "rc \<in> set (rep_cases report)"
    from from_case[OF this] obtain unit where u: "unit \<in> set ?units"
      and s: "rc_sourceCaseName rc = snd (snd unit)" "rc_name rc = fst (snd unit)" by blast
    from u one units_once_shape[of unit "ds_cases ds"] obtain i where
      "i < length (ds_cases ds)" "unit = (ds_cases ds ! i, case_display_name i (ds_cases ds ! i), None)"
      by auto
    with s show "rc_sourceCaseName rc = None"
      and "\<exists>i < length (ds_cases ds). rc_name rc = case_display_name i (ds_cases ds ! i)"
      by auto
  next
    fix rf assume "rf \<in> set (rep_failures report)"
    from from_failure[OF this] obtain unit where u: "unit \<in> set ?units"
      and s: "rf_sourceCaseName rf = snd (snd unit)" "rf_name rf = fst (snd unit)" by blast
    from u one units_once_shape[of unit "ds_cases ds"] obtain i where
      "i < length (ds_cases ds)" "unit = (ds_cases ds ! i, case_display_name i (ds_cases ds ! i), None)"
      by auto
    with s show "rf_sourceCaseName rf = None"
      and "\<exists>i < length (ds_cases ds). rf_name rf = case_display_name i (ds_cases ds ! i)"
      by auto
  qed
  have E: "length ?units = length (ds_cases ds) * nat ?r
        \<and> (\<forall>i < length (ds_cases ds). \<forall>k < nat ?r.
              ?units ! (i * nat ?r + k)
                = (ds_cases ds ! i,
                   case_display_name i (ds_cases ds ! i) @ '' ['' @ show_nat (k + 1) @ ''/''
                     @ show_nat (nat ?r) @ '']'',
                   Some (case_display_name i (ds_cases ds ! i))))
        \<and> (\<forall>rc \<in> set (rep_cases report).
              \<exists>i < length (ds_cases ds). \<exists>k < nat ?r.
                rc_sourceCaseName rc = Some (case_display_name i (ds_cases ds ! i))
                \<and> rc_name rc = case_display_name i (ds_cases ds ! i) @ '' ['' @ show_nat (k + 1)
                      @ ''/'' @ show_nat (nat ?r) @ '']'')
        \<and> (\<forall>rf \<in> set (rep_failures report).
              \<exists>i < length (ds_cases ds). \<exists>k < nat ?r.
                rf_sourceCaseName rf = Some (case_display_name i (ds_cases ds ! i))
                \<and> rf_name rf = case_display_name i (ds_cases ds ! i) @ '' ['' @ show_nat (k + 1)
                      @ ''/'' @ show_nat (nat ?r) @ '']'')"
    if many: "1 < ?r"
  proof (intro conjI ballI allI impI)
    show "length ?units = length (ds_cases ds) * nat ?r"
      using many by (simp add: length_buildTasksToRun)
    show "?units ! (i * nat ?r + k)
                = (ds_cases ds ! i,
                   case_display_name i (ds_cases ds ! i) @ '' ['' @ show_nat (k + 1) @ ''/''
                     @ show_nat (nat ?r) @ '']'',
                   Some (case_display_name i (ds_cases ds ! i)))"
      if "i < length (ds_cases ds)" "k < nat ?r" for i k
      using many that by (rule buildTasksToRun_repeat_nth)
  next
    fix rc assume "rc \<in> set (rep_cases report)"
    from from_case[OF this] obtain unit where u: "unit \<in> set ?units"
      and s: "rc_sourceCaseName rc = snd (snd unit)" "rc_name rc = fst (snd unit)" by blast
    from units_repeat_shape[OF many u] s
    show "\<exists>i < length (ds_cases ds). \<exists>k < nat ?r.
                rc_sourceCaseName rc = Some (case_display_name i (ds_cases ds ! i))
                \<and> rc_name rc = case_display_name i (ds_cases ds ! i) @ '' ['' @ show_nat (k + 1)
                      @ ''/'' @ show_nat (nat ?r) @ '']''"
      by fastforce
  next
    fix rf assume "rf \<in> set (rep_failures report)"
    from from_failure[OF this] obtain unit where u: "unit \<in> set ?units"
      and s: "rf_sourceCaseName rf = snd (snd unit)" "rf_name rf = fst (snd unit)" by blast
    from units_repeat_shape[OF many u] s
    show "\<exists>i < length (ds_cases ds). \<exists>k < nat ?r.
                rf_sourceCaseName rf = Some (case_display_name i (ds_cases ds ! i))
                \<and> rf_name rf = case_display_name i (ds_cases ds ! i) @ '' ['' @ show_nat (k + 1)
                      @ ''/'' @ show_nat (nat ?r) @ '']''"
      by fastforce
  qed
  from A B C E show ?thesis by blast
qed

lemma demo_repeat_failures:
  "map (\<lambda>rf. (rf_name rf, rf_sourceCaseName rf))
       (failures_of (unit_results demo_runtime demo_dataset demo_task 2))
     = [(''x [1/2]'', Some ''x''), (''x [2/2]'', Some ''x'')]"
  by code_simp

lemma demo_repeat_cases:
  "map (\<lambda>rc. (rc_name rc, rc_sourceCaseName rc))
       (cases_of (unit_results demo_runtime demo_dataset demo_task 2))
     = [(''Case 2 [1/2]'', Some ''Case 2''), (''Case 2 [2/2]'', Some ''Case 2'')]"
  by code_simp

lemma demo_display_name: "case_display_name (Suc 0) (ds_cases demo_dataset ! Suc 0) = ''Case 2''"
  by code_simp

theorem unit_names_and_sources_witness:
  "\<exists>report. evaluate_ds demo_runtime demo_dataset demo_task (demo_options (Some 2) None) = Inr report
     \<and> 1 < repeat_of (demo_options (Some 2) None)
     \<and> buildTasksToRun (ds_cases demo_dataset) 2 ! (1 * 2 + 0)
         = (ds_cases demo_dataset ! 1, ''Case 2 [1/2]'', Some ''Case 2'')
     \<and> map (\<lambda>rf. (rf_name rf, rf_sourceCaseName rf)) (rep_failures report)
         = [(''x [1/2]'', Some ''x''), (''x [2/2]'', Some ''x'')]
     \<and> map (\<lambda>rc. (rc_name rc, rc_sourceCaseName rc)) (rep_cases report)
         = [(''Case 2 [1/2]'', Some ''Case 2''), (''Case 2 [2/2]'', Some ''Case 2'')]"
proof -
  let ?opts = "demo_options (Some 2) None"
  have r: "repeat_of ?opts = 2" by (simp add: repeat_of_def demo_options_def)
  have l: "rt_pLimit demo_runtime (limit_argument ?opts) = None"
    by (simp add: demo_runtime_def limit_argument_def demo_options_def pLimit_check_def)
  from evaluate_ds_returns[of ?opts demo_runtime demo_dataset demo_task] r l demo_handlers_safe
  obtain report where ev: "evaluate_ds demo_runtime demo_dataset demo_task ?opts = Inr report"
    by auto
  from evaluate_ds_InrD(4,5)[OF ev] r
  have c: "rep_cases report = cases_of (unit_results demo_runtime demo_dataset demo_task 2)"
    and f: "rep_failures report = failures_of (unit_results demo_runtime demo_dataset demo_task 2)"
    by simp_all
  have n: "(1::nat) < length (ds_cases demo_dataset)" by (simp add: demo_dataset_def)
  have s: "show_nat (Suc 0) = ''1''" "show_nat 2 = ''2''" by code_simp+
  from unit_names_and_sources[OF ev] r
  have "\<forall>i < length (ds_cases demo_dataset). \<forall>k < nat 2.
              buildTasksToRun (ds_cases demo_dataset) 2 ! (i * nat 2 + k)
                = (ds_cases demo_dataset ! i,
                   case_display_name i (ds_cases demo_dataset ! i) @ '' ['' @ show_nat (k + 1) @ ''/''
                     @ show_nat (nat 2) @ '']'',
                   Some (case_display_name i (ds_cases demo_dataset ! i)))"
    by (elim conjE) simp
  from this[rule_format, of 1 0] n
  have "buildTasksToRun (ds_cases demo_dataset) 2 ! (1 * 2 + 0)
         = (ds_cases demo_dataset ! 1, ''Case 2 [1/2]'', Some ''Case 2'')"
    by (simp add: demo_display_name s)
  with ev r c f demo_repeat_failures demo_repeat_cases show ?thesis by simp
qed

section \<open>Properties of the grouping of evaluator outputs\<close>

lemma demo_case_keys:
  "map (\<lambda>rc. (map fst (rc_assertions rc), map fst (rc_scores rc), map fst (rc_labels rc)))
       (cases_of (unit_results demo_runtime demo_dataset demo_task 1))
     = [([''check''], [''check_2''], [''check_3''])]"
  by code_simp

lemma demo_contained: "contained_evaluator (demo_evaluator n v)"
  by (simp add: contained_evaluator_def demo_evaluator_def Evaluator_getDefaultEvaluationName_def)

lemma demo_second_unit:
  "\<exists>rc. runTaskAndEvaluators demo_runtime 1 (ds_evaluators demo_dataset) demo_task
          (ds_cases demo_dataset ! 1) ''Case 2'' None = Inr (CaseResult rc)"
proof -
  have t: "snd (task_fn demo_task (case_inputs (ds_cases demo_dataset ! 1)) 1 0) = Inr ''hello''"
    by (simp add: demo_task_def demo_dataset_def)
  have e: "\<forall>ev \<in> set ((case case_evaluators (ds_cases demo_dataset ! 1) of None \<Rightarrow> [] | Some evs \<Rightarrow> evs)
                        @ ds_evaluators demo_dataset). contained_evaluator ev"
    by (simp add: demo_dataset_def demo_contained)
  from runTaskAndEvaluators_ok[OF t e] show ?thesis by blast
qed

lemma demo_assigned_names:
  "assigned_names [] (map er_name [demo_result (JBool True), demo_result (JNum 1), demo_result (JStr ''good'')])
     = [''check'', ''check_2'', ''check_3'']"
  by (simp add: demo_result_def check_names Set_add_def)

text \<open>
  C5.  Renaming in \<open>groupEvaluatorOutputsByType\<close>.  A name not seen before is kept; a name
  already seen gets the suffix \<open>_k\<close> for the least \<open>k \<ge> 2\<close> whose suffixed name is unused.
  For every list of results, the names the function has seen at the end are the names a
  left-to-right scan assigns, one per result and all different; each result with a
  boolean, numeric or string value is filed under its assigned name in \<open>assertions\<close>,
  \<open>scores\<close> or \<open>labels\<close> (the name \<open>__proto__\<close> apart, which makes no property), and the
  keys of each record are the assigned names of the results of its type; so no name is a
  key of two of the records, here and in the report case of a unit.  Results all named
  \<open>check\<close> are filed as \<open>check\<close>, \<open>check_2\<close>, \<open>check_3\<close>.
\<close>

theorem dedup_and_partition:
  "(name \<notin> set seenNames \<longrightarrow> dedup_name seenNames name = name)
   \<and> (name \<in> set seenNames \<longrightarrow>
        (\<exists>k\<ge>2. dedup_name seenNames name = name @ ''_'' @ show_nat k
            \<and> name @ ''_'' @ show_nat k \<notin> set seenNames
            \<and> (\<forall>j. 2 \<le> j \<and> j < k \<longrightarrow> name @ ''_'' @ show_nat j \<in> set seenNames)))
   \<and> g_seenNames (groupEvaluatorOutputsByType results) = assigned_names [] (map er_name results)
   \<and> length (g_seenNames (groupEvaluatorOutputsByType results)) = length results
   \<and> distinct (g_seenNames (groupEvaluatorOutputsByType results))
   \<and> (\<forall>p \<in> set (zip (assigned_names [] (map er_name results)) results).
         fst p \<noteq> ''__proto__'' \<longrightarrow> filed (groupEvaluatorOutputsByType results) (fst p) (snd p))
   \<and> record_keys (g_assertions (groupEvaluatorOutputsByType results))
        = names_of_type typeof_boolean (assigned_names [] (map er_name results)) results
   \<and> record_keys (g_scores (groupEvaluatorOutputsByType results))
        = names_of_type typeof_number (assigned_names [] (map er_name results)) results
   \<and> record_keys (g_labels (groupEvaluatorOutputsByType results))
        = names_of_type typeof_string (assigned_names [] (map er_name results)) results
   \<and> record_keys (g_assertions (groupEvaluatorOutputsByType results))
        \<inter> record_keys (g_scores (groupEvaluatorOutputsByType results)) = {}
   \<and> record_keys (g_assertions (groupEvaluatorOutputsByType results))
        \<inter> record_keys (g_labels (groupEvaluatorOutputsByType results)) = {}
   \<and> record_keys (g_scores (groupEvaluatorOutputsByType results))
        \<inter> record_keys (g_labels (groupEvaluatorOutputsByType results)) = {}
   \<and> (runTaskAndEvaluators rt j evs task c reportName sourceName = Inr (CaseResult rc) \<longrightarrow>
        record_keys (rc_assertions rc) \<inter> record_keys (rc_scores rc) = {}
        \<and> record_keys (rc_assertions rc) \<inter> record_keys (rc_labels rc) = {}
        \<and> record_keys (rc_scores rc) \<inter> record_keys (rc_labels rc) = {})
   \<and> (er_name e1 = ''check'' \<and> er_name e2 = ''check'' \<and> er_name e3 = ''check'' \<longrightarrow>
        g_seenNames (groupEvaluatorOutputsByType [e1, e2]) = [''check'', ''check_2'']
        \<and> g_seenNames (groupEvaluatorOutputsByType [e1, e2, e3]) = [''check'', ''check_2'', ''check_3''])"
proof -
  let ?g = "groupEvaluatorOutputsByType results"
  let ?names = "assigned_names [] (map er_name results)"
  have A: "name \<notin> set seenNames \<longrightarrow> dedup_name seenNames name = name"
    by (simp add: dedup_name_def)
  have B: "name \<in> set seenNames \<longrightarrow>
        (\<exists>k\<ge>2. dedup_name seenNames name = name @ ''_'' @ show_nat k
            \<and> name @ ''_'' @ show_nat k \<notin> set seenNames
            \<and> (\<forall>j. 2 \<le> j \<and> j < k \<longrightarrow> name @ ''_'' @ show_nat j \<in> set seenNames))"
  proof
    assume "name \<in> set seenNames"
    then have "dedup_name seenNames name = name @ ''_'' @ show_nat (find_suffix seenNames name 2)"
      by (simp add: dedup_name_def)
    with find_suffix_post[of 2 seenNames name] show "\<exists>k\<ge>2. dedup_name seenNames name = name @ ''_'' @ show_nat k
            \<and> name @ ''_'' @ show_nat k \<notin> set seenNames
            \<and> (\<forall>j. 2 \<le> j \<and> j < k \<longrightarrow> name @ ''_'' @ show_nat j \<in> set seenNames)"
      by blast
  qed
  note S = group_scan[of results]
  from S have S1: "g_seenNames ?g = ?names" by blast
  have S2: "length (g_seenNames ?g) = length results" by (simp add: S1)
  have S3: "distinct (g_seenNames ?g)"
    using distinct_assigned_names[of "[]" "map er_name results"] by (simp add: S1)
  from S have S4: "\<forall>p \<in> set (zip ?names results). fst p \<noteq> ''__proto__'' \<longrightarrow> filed ?g (fst p) (snd p)"
    by blast
  from S have S5: "record_keys (g_assertions ?g) = names_of_type typeof_boolean ?names results"
    and S6: "record_keys (g_scores ?g) = names_of_type typeof_number ?names results"
    and S7: "record_keys (g_labels ?g) = names_of_type typeof_string ?names results"
    by blast+
  from groupEvaluatorOutputsByType_keys_apart[of results]
  have K: "record_keys (g_assertions ?g) \<inter> record_keys (g_scores ?g) = {}"
    "record_keys (g_assertions ?g) \<inter> record_keys (g_labels ?g) = {}"
    "record_keys (g_scores ?g) \<inter> record_keys (g_labels ?g) = {}"
    by (simp_all add: keys_apart_def)
  have C: "runTaskAndEvaluators rt j evs task c reportName sourceName = Inr (CaseResult rc) \<longrightarrow>
        record_keys (rc_assertions rc) \<inter> record_keys (rc_scores rc) = {}
        \<and> record_keys (rc_assertions rc) \<inter> record_keys (rc_labels rc) = {}
        \<and> record_keys (rc_scores rc) \<inter> record_keys (rc_labels rc) = {}"
  proof
    assume "runTaskAndEvaluators rt j evs task c reportName sourceName = Inr (CaseResult rc)"
    from report_case_grouped[OF this] obtain outputs where
      "rc_assertions rc = g_assertions (groupEvaluatorOutputsByType outputs)"
      "rc_scores rc = g_scores (groupEvaluatorOutputsByType outputs)"
      "rc_labels rc = g_labels (groupEvaluatorOutputsByType outputs)" by blast
    with groupEvaluatorOutputsByType_keys_apart[of outputs]
    show "record_keys (rc_assertions rc) \<inter> record_keys (rc_scores rc) = {}
        \<and> record_keys (rc_assertions rc) \<inter> record_keys (rc_labels rc) = {}
        \<and> record_keys (rc_scores rc) \<inter> record_keys (rc_labels rc) = {}"
      by (simp add: keys_apart_def)
  qed
  have D: "er_name e1 = ''check'' \<and> er_name e2 = ''check'' \<and> er_name e3 = ''check'' \<longrightarrow>
        g_seenNames (groupEvaluatorOutputsByType [e1, e2]) = [''check'', ''check_2'']
        \<and> g_seenNames (groupEvaluatorOutputsByType [e1, e2, e3]) = [''check'', ''check_2'', ''check_3'']"
    by (simp add: groupEvaluatorOutputsByType_def seen_group_step check_names Set_add_def)
  from A B S1 S2 S3 S4 S5 S6 S7 K C D show ?thesis by (intro conjI)
qed

theorem dedup_and_partition_witness:
  "''check'' \<in> set [''check'', ''check_2'']
   \<and> dedup_name [''check'', ''check_2''] ''check'' = ''check_3''
   \<and> ''check_3'' \<notin> set [''check'', ''check_2'']
   \<and> g_seenNames (groupEvaluatorOutputsByType
         [demo_result (JBool True), demo_result (JNum 1), demo_result (JStr ''good'')])
       = [''check'', ''check_2'', ''check_3'']
   \<and> (''check_2'', demo_result (JNum 1))
        \<in> set (zip [''check'', ''check_2'', ''check_3'']
                    [demo_result (JBool True), demo_result (JNum 1), demo_result (JStr ''good'')])
   \<and> map_of (g_scores (groupEvaluatorOutputsByType
         [demo_result (JBool True), demo_result (JNum 1), demo_result (JStr ''good'')])) ''check_2''
       = Some \<lparr>er_name = ''check_2'', er_value = 1, er_reason = JNull,
                er_source = \<lparr>spec_name = ''check'', spec_arguments = NoArguments\<rparr>\<rparr>
   \<and> record_keys (g_labels (groupEvaluatorOutputsByType
         [demo_result (JBool True), demo_result (JNum 1), demo_result (JStr ''good'')])) = {''check_3''}
   \<and> map (\<lambda>rc. (map fst (rc_assertions rc), map fst (rc_scores rc), map fst (rc_labels rc)))
         (cases_of (unit_results demo_runtime demo_dataset demo_task 1))
       = [([''check''], [''check_2''], [''check_3''])]
   \<and> (\<exists>rc. runTaskAndEvaluators demo_runtime 1 (ds_evaluators demo_dataset) demo_task
               (ds_cases demo_dataset ! 1) ''Case 2'' None = Inr (CaseResult rc)
          \<and> record_keys (rc_assertions rc) \<inter> record_keys (rc_scores rc) = {}
          \<and> record_keys (rc_assertions rc) \<inter> record_keys (rc_labels rc) = {}
          \<and> record_keys (rc_scores rc) \<inter> record_keys (rc_labels rc) = {})"
proof -
  let ?rs = "[demo_result (JBool True), demo_result (JNum 1), demo_result (JStr ''good'')]"
  obtain rc where rc: "runTaskAndEvaluators demo_runtime 1 (ds_evaluators demo_dataset) demo_task
          (ds_cases demo_dataset ! 1) ''Case 2'' None = Inr (CaseResult rc)"
    using demo_second_unit by blast
  note T = dedup_and_partition[of "''check''" "[''check'', ''check_2'']" ?rs
              demo_runtime 1 "ds_evaluators demo_dataset" demo_task
              "ds_cases demo_dataset ! 1" "''Case 2''" None rc
              "demo_result (JBool True)" "demo_result (JNum 1)" "demo_result (JStr ''good'')"]
  note N = demo_assigned_names
  from T rc have keys: "record_keys (rc_assertions rc) \<inter> record_keys (rc_scores rc) = {}
          \<and> record_keys (rc_assertions rc) \<inter> record_keys (rc_labels rc) = {}
          \<and> record_keys (rc_scores rc) \<inter> record_keys (rc_labels rc) = {}"
    by blast
  with rc have P: "\<exists>rc. runTaskAndEvaluators demo_runtime 1 (ds_evaluators demo_dataset) demo_task
               (ds_cases demo_dataset ! 1) ''Case 2'' None = Inr (CaseResult rc)
          \<and> record_keys (rc_assertions rc) \<inter> record_keys (rc_scores rc) = {}
          \<and> record_keys (rc_assertions rc) \<inter> record_keys (rc_labels rc) = {}
          \<and> record_keys (rc_scores rc) \<inter> record_keys (rc_labels rc) = {}"
    by blast
  have m: "''check'' \<in> set [''check'', ''check_2'']" by simp
  from T[THEN conjunct2, THEN conjunct1] m
  have "\<exists>k\<ge>2. dedup_name [''check'', ''check_2''] ''check'' = ''check'' @ ''_'' @ show_nat k
            \<and> ''check'' @ ''_'' @ show_nat k \<notin> set [''check'', ''check_2'']"
    by blast
  then have fresh: "dedup_name [''check'', ''check_2''] ''check'' \<notin> set [''check'', ''check_2'']"
    by auto
  from fresh check_names(3) have f3: "''check_3'' \<notin> set [''check'', ''check_2'']" by simp
  from T have seen: "g_seenNames (groupEvaluatorOutputsByType ?rs) = assigned_names [] (map er_name ?rs)"
    by blast
  then have three: "g_seenNames (groupEvaluatorOutputsByType ?rs) = [''check'', ''check_2'', ''check_3'']"
    by (simp only: N)
  have z: "(''check_2'', demo_result (JNum 1)) \<in> set (zip [''check'', ''check_2'', ''check_3''] ?rs)"
    by simp
  from T have "\<forall>p \<in> set (zip (assigned_names [] (map er_name ?rs)) ?rs).
         fst p \<noteq> ''__proto__'' \<longrightarrow> filed (groupEvaluatorOutputsByType ?rs) (fst p) (snd p)"
    by blast
  then have "\<forall>p \<in> set (zip [''check'', ''check_2'', ''check_3''] ?rs).
         fst p \<noteq> ''__proto__'' \<longrightarrow> filed (groupEvaluatorOutputsByType ?rs) (fst p) (snd p)"
    by (simp only: N)
  from this[rule_format, OF z] have "filed (groupEvaluatorOutputsByType ?rs) ''check_2'' (demo_result (JNum 1))"
    by simp
  then have st: "map_of (g_scores (groupEvaluatorOutputsByType ?rs)) ''check_2''
       = Some \<lparr>er_name = ''check_2'', er_value = 1, er_reason = JNull,
                er_source = \<lparr>spec_name = ''check'', spec_arguments = NoArguments\<rparr>\<rparr>"
    by (simp add: filed_def demo_result_def)
  from T have "record_keys (g_labels (groupEvaluatorOutputsByType ?rs))
        = names_of_type typeof_string (assigned_names [] (map er_name ?rs)) ?rs"
    by blast
  then have lk: "record_keys (g_labels (groupEvaluatorOutputsByType ?rs)) = {''check_3''}"
    by (simp only: N) (simp add: names_of_type_def typeof_string_def demo_result_def)
  from m check_names(3) f3 three z st lk demo_case_keys P show ?thesis by (intro conjI)
qed

section \<open>Properties of the aggregation\<close>







text \<open>
  C8 (as amended).  \<open>averageFromAggregates\<close> takes the assertion average as the plain mean
  of the non-null assertion averages (null when there is none).  For a label name that is
  no property name of \<open>Object.prototype\<close> and is reported by some aggregate, with label
  values that are no such names either, the frequency of each value is the sum of the
  frequencies the reporting aggregates give it, taken as they are, divided by the number
  of reporting aggregates: an unweighted mean of the groups' distributions.
\<close>

theorem averageFromAggregates_labels_and_assertions:
  "(aggregates \<noteq> [] \<longrightarrow>
      agg_assertions (averageFromAggregates aggregates) =
        (if non_null_assertions aggregates = [] then None
         else Some (sum_list (non_null_assertions aggregates)
                    / of_nat (length (non_null_assertions aggregates)))))
   \<and> (a \<in> set aggregates \<and> has_label k a \<and> \<not> inherited k
        \<and> (\<forall>a \<in> set aggregates. \<forall>freqs.
               map_of (agg_labels a) k = Some freqs \<longrightarrow>
                 distinct (map fst freqs) \<and> (\<forall>v \<in> fst ` set freqs. \<not> inherited v)) \<longrightarrow>
      (\<exists>d. map_of (agg_labels (averageFromAggregates aggregates)) k = Some d
         \<and> (\<forall>v. label_freq d v =
                js_div (num_sum (map (\<lambda>a. label_mass a k v) (filter (has_label k) aggregates)))
                       (Num (of_nat (length (filter (has_label k) aggregates)))))))"
proof (intro conjI impI)
  assume "aggregates \<noteq> []"
  then show "agg_assertions (averageFromAggregates aggregates) =
        (if non_null_assertions aggregates = [] then None
         else Some (sum_list (non_null_assertions aggregates)
                    / of_nat (length (non_null_assertions aggregates))))"
    by (simp add: averageFromAggregates_def Let_def map_filter_non_null foldl_plus)
next
  assume h: "a \<in> set aggregates \<and> has_label k a \<and> \<not> inherited k
        \<and> (\<forall>a \<in> set aggregates. \<forall>freqs.
               map_of (agg_labels a) k = Some freqs \<longrightarrow>
                 distinct (map fst freqs) \<and> (\<forall>v \<in> fst ` set freqs. \<not> inherited v))"
  then have ne: "aggregates \<noteq> []" and ain: "a \<in> set aggregates" and hl: "has_label k a"
    and pk: "\<not> inherited k" by auto
  let ?p = "fold (combine_step k) aggregates ([], 0)"
  from h have wf: "\<forall>a \<in> set aggregates. \<forall>freqs.
               map_of (agg_labels a) k = Some freqs \<longrightarrow>
                 distinct (map fst freqs) \<and> (\<forall>v \<in> fst ` set freqs. \<not> inherited v)" by blast
  from combine_fold[OF wf _ pk, of "[]" 0]
  have d: "distinct (map fst (fst ?p))"
    and g: "\<And>v. label_freq (fst ?p) v
              = num_sum (map (\<lambda>a. label_mass a k v) (filter (has_label k) aggregates))"
    and n: "snd ?p = length (filter (has_label k) aggregates)"
    and pl: "\<forall>v \<in> fst ` set (fst ?p). \<not> inherited v"
    by (simp_all add: label_freq_def)
  from ain hl have "a \<in> set (filter (has_label k) aggregates)" by simp
  then have pos: "length (filter (has_label k) aggregates) \<noteq> 0" by (auto simp del: set_filter)
  let ?d = "map (\<lambda>(l, v). (l, js_div v (Num (of_nat (snd ?p))))) (fst ?p)"
  have "map_of (combine_labels aggregates) k = Some ?d"
    by (rule combine_labels_lookup[OF d pl ain hl pk])
  with ne have A: "map_of (agg_labels (averageFromAggregates aggregates)) k = Some ?d"
    by (simp add: averageFromAggregates_def Let_def)
  have B: "\<forall>v. label_freq ?d v =
                js_div (num_sum (map (\<lambda>a. label_mass a k v) (filter (has_label k) aggregates)))
                       (Num (of_nat (length (filter (has_label k) aggregates))))"
    using pos by (simp add: label_freq_map_values g n)
  from A B show "\<exists>d. map_of (agg_labels (averageFromAggregates aggregates)) k = Some d
         \<and> (\<forall>v. label_freq d v =
                js_div (num_sum (map (\<lambda>a. label_mass a k v) (filter (has_label k) aggregates)))
                       (Num (of_nat (length (filter (has_label k) aggregates)))))"
    by blast
qed

text \<open>
  Two groups of 2 runs and 1 run: scaling by the sample counts would give the value \<open>a\<close> the
  mass \<open>(2 * 1 + 0) / 2 = 1\<close>; the function gives it \<open>(1 + 0) / 2\<close>.  Two aggregates of which
  one reports the label name \<open>constructor\<close>: both pass \<open>key in a.labels\<close>, and the one
  distribution is divided by 2.  One aggregate with the label value \<open>constructor\<close>: the sum
  starts from the inherited function instead of 0 and the frequency is \<open>NaN\<close>.
\<close>

theorem averageFromAggregates_labels_unweighted:
  "length demo_group_g = 2 \<and> agg_labels (averageCases demo_group_g) = [(''cat'', [(''a'', Num 1)])]
   \<and> length demo_group_h = 1 \<and> agg_labels (averageCases demo_group_h) = [(''cat'', [(''b'', Num 1)])]
   \<and> agg_labels (averageFromAggregates [averageCases demo_group_g, averageCases demo_group_h])
       = [(''cat'', [(''a'', Num (1 / 2)), (''b'', Num (1 / 2))])]
   \<and> count_weighted_mass [(length demo_group_g, averageCases demo_group_g),
                            (length demo_group_h, averageCases demo_group_h)] ''cat'' ''a'' = Num 1
   \<and> agg_labels (averageFromAggregates
         [demo_aggregate [(''constructor'', [(''a'', Num 1)])], demo_aggregate [(''cat'', [(''b'', Num 1)])]])
       = [(''constructor'', [(''a'', Num (1 / 2))]), (''cat'', [(''b'', Num 1)])]
   \<and> agg_labels (averageFromAggregates [demo_aggregate [(''cat'', [(''constructor'', Num 1)])]])
       = [(''cat'', [(''constructor'', NotNumber)])]"
  by code_simp

lemma demo_group_aggregates:
  "agg_labels (averageCases demo_group_g) = [(''cat'', [(''a'', Num 1)])]"
  "agg_labels (averageCases demo_group_h) = [(''cat'', [(''b'', Num 1)])]"
  "agg_assertions (averageCases demo_group_g) = Some (1 / 2)"
  "agg_assertions (averageCases demo_group_h) = None"
  by code_simp+

lemma demo_plain: "\<not> inherited ''cat''" "\<not> inherited ''a''" "\<not> inherited ''b''"
  by (simp_all add: inherited_def Object_prototype_names_def)

theorem averageFromAggregates_labels_and_assertions_witness:
  "averageCases demo_group_g \<in> set [averageCases demo_group_g, averageCases demo_group_h]
   \<and> has_label ''cat'' (averageCases demo_group_g)
   \<and> \<not> inherited ''cat''
   \<and> list_all (\<lambda>a. case map_of (agg_labels a) ''cat'' of None \<Rightarrow> True
                             | Some freqs \<Rightarrow> distinct (map fst freqs) \<and> list_all (\<lambda>v. \<not> inherited v) (map fst freqs))
        [averageCases demo_group_g, averageCases demo_group_h]
   \<and> (\<exists>d. map_of (agg_labels (averageFromAggregates
                [averageCases demo_group_g, averageCases demo_group_h])) ''cat'' = Some d
         \<and> label_freq d ''a'' = Num (1 / 2) \<and> label_freq d ''b'' = Num (1 / 2))
   \<and> agg_assertions (averageFromAggregates [averageCases demo_group_g, averageCases demo_group_h])
       = Some (1 / 2)"
proof -
  let ?A = "[averageCases demo_group_g, averageCases demo_group_h]"
  note G = demo_group_aggregates
  have h1: "averageCases demo_group_g \<in> set ?A" by simp
  have h2: "has_label ''cat'' (averageCases demo_group_g)" "has_label ''cat'' (averageCases demo_group_h)"
    by (simp_all add: has_label_def G)
  have h3: "\<forall>a \<in> set ?A. \<forall>freqs. map_of (agg_labels a) ''cat'' = Some freqs \<longrightarrow>
              distinct (map fst freqs) \<and> (\<forall>v \<in> fst ` set freqs. \<not> inherited v)"
    by (simp add: G demo_plain)
  have h4: "list_all (\<lambda>a. case map_of (agg_labels a) ''cat'' of None \<Rightarrow> True
                             | Some freqs \<Rightarrow> distinct (map fst freqs) \<and> list_all (\<lambda>v. \<not> inherited v) (map fst freqs)) ?A"
    by (simp add: G demo_plain)
  note T = averageFromAggregates_labels_and_assertions[of ?A "averageCases demo_group_g" "''cat''"]
  from T h1 h2(1) h3 demo_plain(1)
  obtain d where d: "map_of (agg_labels (averageFromAggregates ?A)) ''cat'' = Some d"
    and v: "\<And>v. label_freq d v =
                js_div (num_sum (map (\<lambda>a. label_mass a ''cat'' v) (filter (has_label ''cat'') ?A)))
                       (Num (of_nat (length (filter (has_label ''cat'') ?A))))"
    by blast
  have a: "label_freq d ''a'' = Num (1 / 2)" and b: "label_freq d ''b'' = Num (1 / 2)"
    unfolding v by (simp_all add: h2 label_mass_def G label_freq_def)
  have n: "non_null_assertions ?A = [1 / 2]"
    by (simp add: non_null_assertions_def G)
  from T have "agg_assertions (averageFromAggregates ?A) =
        (if non_null_assertions ?A = [] then None
         else Some (sum_list (non_null_assertions ?A) / of_nat (length (non_null_assertions ?A))))"
    by blast
  then have s: "agg_assertions (averageFromAggregates ?A) = Some (1 / 2)"
    by (simp add: n)
  from h1 h2(1) demo_plain(1) h4 d a b s show ?thesis by blast
qed

text \<open>
  The label distributions of \<open>averageCases\<close>.  For a list of cases whose label names and
  label values are no property names of \<open>Object.prototype\<close>, and a label name that occurs
  in some case, \<open>averageCases\<close> gives that name a distribution with one entry per observed
  value whose fractions are numbers that sum to 1; when every case's labels have distinct
  keys, the fraction of a value is the number of cases carrying the name with that value
  divided by the number of cases carrying the name.
\<close>

theorem label_distribution_sums_to_one:
  assumes "plain_labels cases" and "c \<in> set cases" and "map_of (rc_labels c) k \<noteq> None"
  shows "\<exists>d. map_of (agg_labels (averageCases cases)) k = Some d
           \<and> num_sum (map snd d) = Num 1
           \<and> distinct (map fst d)
           \<and> ((\<forall>c \<in> set cases. distinct (map fst (rc_labels c))) \<longrightarrow>
                (\<forall>v. map_of d v =
                   (if cases_with_label_value k v cases = 0 then None
                    else Some (Num (of_nat (cases_with_label_value k v cases)
                                    / of_nat (cases_with_label k cases))))))"
proof -
  let ?es = "concat (map rc_labels cases)"
  note plain = plain_labels_entries[OF assms(1)]
  obtain lc ls where t: "label_tally cases = (lc, ls)" by (cases "label_tally cases")
  have ok: "tally_ok ?es (lc, ls)"
    using tally_ok_fold[OF plain] t by (simp add: label_tally_concat)
  from assms(2,3) obtain r where "(k, r) \<in> set (rc_labels c)"
    by (auto dest: map_of_SomeD)
  with assms(2) have "(k, r) \<in> set ?es" by auto
  then have pos: "occ k ?es \<noteq> 0"
    unfolding occ_def by (simp only: length_0_conv filter_empty_conv) force
  with tally_okD(3)[OF ok, of k] obtain d0 where d0: "map_of ls k = Some d0"
    by (cases "map_of ls k") auto
  note dd = tally_okD(4)[OF ok d0] and gv = tally_okD(5)[OF ok d0]
    and sm = tally_okD(6)[OF ok d0]
  let ?d = "map (\<lambda>(l, c). (l, js_div c (Num (of_nat (occ k ?es))))) d0"
  from assms(2) have ne: "cases \<noteq> []" by auto
  then have "agg_labels (averageCases cases) = label_distribution (label_tally cases)"
    by (simp add: averageCases_def Let_def)
  with label_distribution_closed[OF ok d0 plain] t
  have A: "map_of (agg_labels (averageCases cases)) k = Some ?d" by simp
  have num: "snd p = Num (of_nat (occv k (fst p) ?es))" if "p \<in> set d0" for p
  proof -
    have "map_of d0 (fst p) = Some (snd p)"
      using map_of_is_SomeI[OF dd, of "fst p" "snd p"] that by simp
    with gv[of "fst p"] show ?thesis by (simp split: if_splits)
  qed
  have snd_d: "map snd ?d = map (\<lambda>p. Num (the_number (snd p) / of_nat (occ k ?es))) d0"
    using num pos by (auto simp: case_prod_beta)
  have allnum: "\<exists>r. x = Num r" if "x \<in> set (map snd ?d)" for x
    using that unfolding snd_d by auto
  have "num_sum (map snd ?d) = Num (sum_list (map the_number (map snd ?d)))"
    by (rule num_sum_numbers) (rule allnum)
  also have "sum_list (map the_number (map snd ?d))
               = sum_list (map (\<lambda>p. the_number (snd p) / of_nat (occ k ?es)) d0)"
    by (simp only: snd_d) (simp add: comp_def)
  also have "\<dots> = sum_list (map (\<lambda>p. the_number (snd p)) d0) / of_nat (occ k ?es)"
    by (induction d0) (simp_all add: add_divide_distrib)
  also have "\<dots> = 1" using sm pos by simp
  finally have B: "num_sum (map snd ?d) = Num 1" .
  have C: "distinct (map fst ?d)"
    using dd by (simp add: comp_def case_prod_beta)
  have mo: "map_of ?d v = (if occv k v ?es = 0 then None
                           else Some (Num (of_nat (occv k v ?es) / of_nat (occ k ?es))))" for v
    using gv[of v] pos by (simp add: map_of_map_values)
  have D: "(\<forall>c \<in> set cases. distinct (map fst (rc_labels c))) \<longrightarrow>
                (\<forall>v. map_of ?d v =
                   (if cases_with_label_value k v cases = 0 then None
                    else Some (Num (of_nat (cases_with_label_value k v cases)
                                    / of_nat (cases_with_label k cases)))))"
  proof
    assume wf: "\<forall>c \<in> set cases. distinct (map fst (rc_labels c))"
    show "\<forall>v. map_of ?d v =
                   (if cases_with_label_value k v cases = 0 then None
                    else Some (Num (of_nat (cases_with_label_value k v cases)
                                    / of_nat (cases_with_label k cases))))"
      using mo unfolding occ_cases[OF wf] occv_cases[OF wf] by blast
  qed
  from A B C D show ?thesis by blast
qed

lemma demo_label_average:
  "map_of (agg_labels (averageCases demo_label_cases)) ''cat''
     = Some [(''a'', Num (2 / 3)), (''b'', Num (1 / 3))]"
  by code_simp

lemma demo_plain_labels: "plain_labels demo_label_cases"
  by (simp add: plain_labels_def demo_label_cases_def demo_report_case_def demo_entry_def
        inherited_def Object_prototype_names_def)

theorem label_distribution_sums_to_one_witness:
  "plain_labels demo_label_cases
   \<and> hd demo_label_cases \<in> set demo_label_cases
   \<and> map_of (rc_labels (hd demo_label_cases)) ''cat'' \<noteq> None
   \<and> map_of (agg_labels (averageCases demo_label_cases)) ''cat''
       = Some [(''a'', Num (2 / 3)), (''b'', Num (1 / 3))]
   \<and> num_sum (map snd [(''a'', Num (2 / 3)), (''b'', Num (1 / 3))]) = Num 1"
proof -
  have h1: "hd demo_label_cases \<in> set demo_label_cases"
    by (simp add: demo_label_cases_def)
  have h2: "map_of (rc_labels (hd demo_label_cases)) ''cat'' \<noteq> None"
    by (simp add: demo_label_cases_def demo_report_case_def demo_entry_def)
  from label_distribution_sums_to_one[OF demo_plain_labels h1 h2] demo_label_average
  have "num_sum (map snd [(''a'', Num (2 / 3)), (''b'', Num (1 / 3))]) = Num 1"
    by auto
  with demo_plain_labels h1 h2 demo_label_average show ?thesis by blast
qed

text \<open>
  C9.  Every label name that occurs in a case is meant to get a distribution that sums
  to 1, and gets one for the names above.  For a property name of \<open>Object.prototype\<close> it
  does not.  A case with the label \<open>constructor\<close>: \<open>labelCounts[k] ?? 0\<close> and \<open>!labelSums[k]\<close>
  read the inherited \<open>Object\<close> function, \<open>labelSums\<close> gets no key, and the name has no
  distribution.  A case with the label value \<open>constructor\<close> under the name \<open>cat\<close>: its
  count starts from the inherited function, and the fraction is \<open>NaN\<close>.
\<close>

theorem label_distribution_inherited_names:
  "map_of (rc_labels (demo_report_case ''r'' None [] [(''constructor'', ''a'')] [])) ''constructor'' \<noteq> None
   \<and> agg_labels (averageCases [demo_report_case ''r'' None [] [(''constructor'', ''a'')] []]) = []
   \<and> map_of (rc_labels (demo_report_case ''r'' None [] [(''cat'', ''constructor'')] [])) ''cat'' \<noteq> None
   \<and> agg_labels (averageCases [demo_report_case ''r'' None [] [(''cat'', ''constructor'')] []])
       = [(''cat'', [(''constructor'', NotNumber)])]"
  by code_simp


end
